theory Spec2Isabelle
  imports Complex_Main
begin

section \<open>Data model of the arbitrage engine (src/arbitrage/engine.ts)\<close>

text \<open>
  The engine coordinates collaborators it only knows through interfaces: a market data
  provider, a strategy, a risk manager, a trade executor, a logger and an optional
  decision logger. The records below carry the fields the engine reads or writes.
  JavaScript numbers that are prices or amounts are \<open>real\<close> (NaN and the infinities are
  not modelled), counters are \<open>nat\<close> or \<open>int\<close>, identifiers are \<open>string\<close>.
\<close>

text \<open>What a collaborator can throw. The engine distinguishes only
  \<open>OrderbookNotFoundError\<close> (by \<open>instanceof\<close>) from everything else; each carries
  its message (\<open>err.message\<close>, or \<open>String(err)\<close> for a thrown non-Error).\<close>

datatype error =
    OrderbookNotFoundError string
  | OtherError string
  | RangeError string

fun message :: "error \<Rightarrow> string" where
  "message (OrderbookNotFoundError m) = m"
| "message (OtherError m) = m"
| "message (RangeError m) = m"

fun isOrderbookNotFoundError :: "error \<Rightarrow> bool" where
  "isOrderbookNotFoundError (OrderbookNotFoundError m) = True"
| "isOrderbookNotFoundError (OtherError m) = False"
| "isOrderbookNotFoundError (RangeError m) = False"

record Market =
  marketId :: string
  yesTokenId :: string
  noTokenId :: string

record OrderBookTop =
  bestAsk :: real
  bestBid :: real

text \<open>\<open>{ ...market, yesTop, noTop }\<close>: a market extended by the two tops.\<close>

record MarketSnapshot = Market +
  yesTop :: OrderBookTop
  noTop :: OrderBookTop

text \<open>The plan handed to the executor holds the tradable fields of an opportunity; the
  opportunity has two more fields, which only the decision record reads.\<close>

record ExecutionPlan = Market +
  yesAsk :: real
  noAsk :: real
  sizeUsd :: real
  edgeBps :: real
  estProfitUsd :: real

record Opportunity = ExecutionPlan +
  liquidityUsd :: real
  spreadBps :: real

record RiskDecision =
  allowed :: bool
  decision_reason :: "string option"

record GasCheck =
  ok :: bool

record ExecutionResult =
  result_status :: string
  result_reason :: "string option"
  txHashes :: "string list option"

text \<open>One audit row. \<open>ts\<close> holds the instant that \<open>new Date(now).toISOString()\<close>
  renders (milliseconds since the epoch); the rendering itself is not modelled.\<close>

record DecisionRecord =
  ts :: int
  market_id :: string
  yes_ask :: real
  no_ask :: real
  edge_bps :: real
  liquidity :: real
  spread_bps :: real
  est_profit_usd :: real
  action :: string
  reason :: string
  planned_size :: "real option"
  tx_hash :: "string option"
  status :: string

record ArbConfig =
  scanIntervalMs :: int
  maxConcurrentTrades :: int

subsection \<open>Observable effects\<close>

text \<open>The lines the engine writes to its logger, with the values it interpolates.\<close>

datatype log_line =
    EngineStarted
  | ScanComplete nat nat nat
  | FoundOpportunities nat string real real real nat nat
  | SkipLine string string real real real
  | InvalidOrderbookToken string string
  | ScanError string

datatype level = Info | Warn

text \<open>Everything the engine does to the outside, in the order it does it: a logger
  call, a call of a collaborator's method (recorded when the call is made, whatever it
  returns or throws), and each value written to the \<open>activeTrades\<close> field.\<close>

datatype event =
    Log level log_line
  | Call_getActiveMarkets
  | Call_getOrderBookTop string
  | Call_findOpportunities "MarketSnapshot list"
  | Call_canExecute Opportunity
  | Call_ensureGasBalance
  | Call_onTradeSubmitted Opportunity
  | Call_execute ExecutionPlan
  | Call_onTradeSuccess Opportunity
  | Call_onTradeFailure Opportunity string
  | Call_append DecisionRecord
  | ActiveTradesSet int

text \<open>The collaborators, over a state \<open>'w\<close> of their own (positions, balances, the
  network): each method takes that state and returns a value or a thrown error, with the
  state it leaves. The decision logger is optional.\<close>

record 'w collaborators =
  provider_getActiveMarkets :: "'w \<Rightarrow> (error + Market list) \<times> 'w"
  provider_getOrderBookTop :: "string \<Rightarrow> 'w \<Rightarrow> (error + OrderBookTop) \<times> 'w"
  strategy_findOpportunities ::
    "MarketSnapshot list \<Rightarrow> int \<Rightarrow> 'w \<Rightarrow> (error + Opportunity list) \<times> 'w"
  riskManager_canExecute :: "Opportunity \<Rightarrow> int \<Rightarrow> 'w \<Rightarrow> (error + RiskDecision) \<times> 'w"
  riskManager_ensureGasBalance :: "int \<Rightarrow> 'w \<Rightarrow> (error + GasCheck) \<times> 'w"
  riskManager_onTradeSubmitted :: "Opportunity \<Rightarrow> int \<Rightarrow> 'w \<Rightarrow> (error + unit) \<times> 'w"
  riskManager_onTradeSuccess :: "Opportunity \<Rightarrow> int \<Rightarrow> 'w \<Rightarrow> (error + unit) \<times> 'w"
  riskManager_onTradeFailure ::
    "Opportunity \<Rightarrow> int \<Rightarrow> string \<Rightarrow> 'w \<Rightarrow> (error + unit) \<times> 'w"
  executor_execute :: "ExecutionPlan \<Rightarrow> int \<Rightarrow> 'w \<Rightarrow> (error + ExecutionResult) \<times> 'w"
  decisionLogger :: "(DecisionRecord \<Rightarrow> 'w \<Rightarrow> (error + unit) \<times> 'w) option"

text \<open>The engine instance: its two fields, the collaborators' state and the trace of
  effects so far.\<close>

record 'w engine =
  running :: bool
  activeTrades :: int
  world :: 'w
  trace :: "event list"

definition newEngine :: "'w \<Rightarrow> 'w engine" where
  "newEngine w = \<lparr>running = False, activeTrades = 0, world = w, trace = []\<rparr>"

subsection \<open>Statements that may throw\<close>

text \<open>An engine method takes the engine and returns either the thrown error (\<open>Inl\<close>)
  or its value (\<open>Inr\<close>), together with the engine as it is at that point: a throw keeps
  every write made before it.\<close>

type_synonym ('w, 'a) prog = "'w engine \<Rightarrow> (error + 'a) \<times> 'w engine"

definition andThen :: "('w, 'a) prog \<Rightarrow> ('a \<Rightarrow> ('w, 'b) prog) \<Rightarrow> ('w, 'b) prog" where
  "andThen m f s = (case m s of (Inl e, s') \<Rightarrow> (Inl e, s') | (Inr a, s') \<Rightarrow> f a s')"

definition done_with :: "'a \<Rightarrow> ('w, 'a) prog" where
  "done_with a s = (Inr a, s)"

definition emit :: "event \<Rightarrow> ('w, unit) prog" where
  "emit e s = (Inr (), s\<lparr>trace := trace s @ [e]\<rparr>)"

definition logger :: "level \<Rightarrow> log_line \<Rightarrow> ('w, unit) prog" where
  "logger l line = emit (Log l line)"

text \<open>Calling a collaborator: the call is recorded, then it runs on the world.\<close>

definition invoke :: "event \<Rightarrow> ('w \<Rightarrow> (error + 'a) \<times> 'w) \<Rightarrow> ('w, 'a) prog" where
  "invoke e f s =
     (case f (world s) of (r, w') \<Rightarrow> (r, s\<lparr>world := w', trace := trace s @ [e]\<rparr>))"

text \<open>\<open>this.activeTrades += d\<close>.\<close>

definition addActiveTrades :: "int \<Rightarrow> ('w, unit) prog" where
  "addActiveTrades d s =
     (Inr (), s\<lparr>activeTrades := activeTrades s + d,
                 trace := trace s @ [ActiveTradesSet (activeTrades s + d)]\<rparr>)"

text \<open>\<open>try { body } catch (err) { handler(err) }\<close>.\<close>

definition tryCatch :: "('w, 'a) prog \<Rightarrow> (error \<Rightarrow> ('w, 'a) prog) \<Rightarrow> ('w, 'a) prog" where
  "tryCatch body handler s =
     (case body s of (Inl e, s') \<Rightarrow> handler e s' | (Inr a, s') \<Rightarrow> (Inr a, s'))"

text \<open>\<open>a || b\<close> on an optional string: \<open>undefined\<close> and the empty string are falsy.\<close>

fun orElse :: "string option \<Rightarrow> string \<Rightarrow> string" where
  "orElse None d = d"
| "orElse (Some r) d = (if r = [] then d else r)"

text \<open>\<open>new Date(now).toISOString()\<close> throws a RangeError outside the range of valid
  dates, 8.64e15 milliseconds either side of the epoch.\<close>

definition validTime :: "int \<Rightarrow> bool" where
  "validTime now \<longleftrightarrow> - 8640000000000000 \<le> now \<and> now \<le> 8640000000000000"

definition toISOString :: "int \<Rightarrow> error + int" where
  "toISOString now =
     (if validTime now then Inr now else Inl (RangeError ''Invalid time value''))"

text \<open>\<open>result.txHashes?.[0]\<close>.\<close>

fun firstTxHash :: "string list option \<Rightarrow> string option" where
  "firstTxHash None = None"
| "firstTxHash (Some []) = None"
| "firstTxHash (Some (h # hs)) = Some h"

section \<open>The engine's methods\<close>

definition zeroTop :: OrderBookTop where
  "zeroTop = \<lparr>bestAsk = 0, bestBid = 0\<rparr>"

definition getOrderBookTopSafe ::
  "'w collaborators \<Rightarrow> string \<Rightarrow> string \<Rightarrow> ('w, OrderBookTop \<times> bool) prog" where
  "getOrderBookTopSafe c tokenId mId =
     tryCatch
       (andThen (invoke (Call_getOrderBookTop tokenId) (provider_getOrderBookTop c tokenId))
          (\<lambda>top. done_with (top, False)))
       (\<lambda>err.
          if isOrderbookNotFoundError err then
            andThen (logger Warn (InvalidOrderbookToken tokenId mId))
              (\<lambda>_. done_with (zeroTop, True))
          else (\<lambda>s. (Inl err, s)))"

definition logDecision ::
  "'w collaborators \<Rightarrow> Opportunity \<Rightarrow> string \<Rightarrow> string \<Rightarrow> int \<Rightarrow> real option \<Rightarrow>
     string option \<Rightarrow> ('w, unit) prog" where
  "logDecision c opportunity act rsn now plannedSize txHash =
     (case decisionLogger c of
        None \<Rightarrow> done_with ()
      | Some appendRow \<Rightarrow>
          andThen (\<lambda>s. (toISOString now, s))
            (\<lambda>iso.
               let row = \<lparr>ts = iso,
                          market_id = marketId opportunity,
                          yes_ask = yesAsk opportunity,
                          no_ask = noAsk opportunity,
                          edge_bps = edgeBps opportunity,
                          liquidity = liquidityUsd opportunity,
                          spread_bps = spreadBps opportunity,
                          est_profit_usd = estProfitUsd opportunity,
                          action = act,
                          reason = rsn,
                          planned_size = plannedSize,
                          tx_hash = txHash,
                          status = (if act = ''trade'' then ''submitted'' else ''skipped'')\<rparr>
               in invoke (Call_append row) (appendRow row)))"

definition planOf :: "Opportunity \<Rightarrow> ExecutionPlan" where
  "planOf opportunity =
     \<lparr>marketId = marketId opportunity,
      yesTokenId = yesTokenId opportunity,
      noTokenId = noTokenId opportunity,
      yesAsk = yesAsk opportunity,
      noAsk = noAsk opportunity,
      sizeUsd = sizeUsd opportunity,
      edgeBps = edgeBps opportunity,
      estProfitUsd = estProfitUsd opportunity\<rparr>"

text \<open>What follows \<open>this.activeTrades -= 1\<close>: the branch on the result's status.\<close>

definition settle ::
  "'w collaborators \<Rightarrow> Opportunity \<Rightarrow> int \<Rightarrow> ExecutionResult \<Rightarrow> ('w, unit) prog" where
  "settle c opportunity now result =
     (if result_status result = ''submitted'' \<or> result_status result = ''dry_run'' then
        andThen (invoke (Call_onTradeSuccess opportunity)
                   (riskManager_onTradeSuccess c opportunity now))
          (\<lambda>_. logDecision c opportunity ''trade'' (result_status result) now
                  (Some (sizeUsd (planOf opportunity))) (firstTxHash (txHashes result)))
      else
        andThen (invoke
                   (Call_onTradeFailure opportunity
                      (orElse (result_reason result) (result_status result)))
                   (riskManager_onTradeFailure c opportunity now
                      (orElse (result_reason result) (result_status result))))
          (\<lambda>_. logDecision c opportunity ''skip''
                  (orElse (result_reason result) (result_status result)) now None None))"

text \<open>From \<open>this.activeTrades += 1\<close> to the end of \<open>handleOpportunity\<close>.\<close>

definition submit :: "'w collaborators \<Rightarrow> Opportunity \<Rightarrow> int \<Rightarrow> ('w, unit) prog" where
  "submit c opportunity now =
     andThen (addActiveTrades 1)
       (\<lambda>_. andThen (invoke (Call_onTradeSubmitted opportunity)
                       (riskManager_onTradeSubmitted c opportunity now))
       (\<lambda>_. andThen (invoke (Call_execute (planOf opportunity))
                       (executor_execute c (planOf opportunity) now))
       (\<lambda>result. andThen (addActiveTrades (- 1))
       (\<lambda>_. settle c opportunity now result))))"

definition handleOpportunity ::
  "'w collaborators \<Rightarrow> Opportunity \<Rightarrow> int \<Rightarrow> ('w, unit) prog" where
  "handleOpportunity c opportunity now =
     andThen (invoke (Call_canExecute opportunity) (riskManager_canExecute c opportunity now))
       (\<lambda>decision.
          if \<not> allowed decision then
            andThen (logger Info
                       (SkipLine (marketId opportunity)
                          (orElse (decision_reason decision) ''filtered'')
                          (edgeBps opportunity) (estProfitUsd opportunity) (sizeUsd opportunity)))
              (\<lambda>_. logDecision c opportunity ''skip''
                      (orElse (decision_reason decision) ''filtered'') now None None)
          else
            andThen (invoke Call_ensureGasBalance (riskManager_ensureGasBalance c now))
              (\<lambda>gasCheck.
                 if \<not> ok gasCheck then
                   andThen (logger Warn
                              (SkipLine (marketId opportunity) ''low_gas''
                                 (edgeBps opportunity) (estProfitUsd opportunity)
                                 (sizeUsd opportunity)))
                     (\<lambda>_. logDecision c opportunity ''skip'' ''low_gas'' now None None)
                 else submit c opportunity now))"

subsection \<open>One scan\<close>

text \<open>The two locals of \<open>scanOnce\<close> that the per-market closures update.\<close>

record failureCounters =
  orderbookFailures :: nat
  marketsWithOrderbookFailures :: nat

text \<open>The closure run for one market inside \<open>orderbookLimiter.with\<close>: both tops are
  fetched, the counters updated, the snapshot returned.\<close>

definition snapshotTask ::
  "'w collaborators \<Rightarrow> Market \<Rightarrow> failureCounters \<Rightarrow>
     ('w, MarketSnapshot \<times> failureCounters) prog" where
  "snapshotTask c market k =
     andThen (getOrderBookTopSafe c (yesTokenId market) (marketId market))
       (\<lambda>yesResult. andThen (getOrderBookTopSafe c (noTokenId market) (marketId market))
       (\<lambda>noResult.
          let hasFailure = snd yesResult \<or> snd noResult;
              k1 = (if hasFailure
                    then k\<lparr>marketsWithOrderbookFailures := marketsWithOrderbookFailures k + 1\<rparr>
                    else k);
              k2 = k1\<lparr>orderbookFailures :=
                        orderbookFailures k1 + ((if snd yesResult then 1 else 0)
                          + (if snd noResult then 1 else 0))\<rparr>
          in done_with
               (\<lparr>marketId = marketId market, yesTokenId = yesTokenId market,
                 noTokenId = noTokenId market,
                 yesTop = fst yesResult, noTop = fst noResult\<rparr>, k2)))"

text \<open>\<open>Promise.all(markets.map(...))\<close>: the snapshots come back in the order of the
  markets, and the first task that throws makes the whole await throw. The tasks are run
  here one market after the other; which of them overlap in time is the limiter's matter
  (see the section on the limiter), and what tasks still do after the await has thrown is
  not part of the scan.\<close>

fun buildSnapshots ::
  "'w collaborators \<Rightarrow> Market list \<Rightarrow> failureCounters \<Rightarrow>
     ('w, MarketSnapshot list \<times> failureCounters) prog" where
  "buildSnapshots c [] k = done_with ([], k)"
| "buildSnapshots c (market # markets) k =
     andThen (snapshotTask c market k)
       (\<lambda>r1. andThen (buildSnapshots c markets (snd r1))
       (\<lambda>r2. done_with (fst r1 # fst r2, snd r2)))"

text \<open>\<open>opportunities.sort((a, b) => b.estProfitUsd - a.estProfitUsd)\<close>: a stable sort,
  larger profit first.\<close>

definition sortByProfit :: "Opportunity list \<Rightarrow> Opportunity list" where
  "sortByProfit opportunities = sort_key (\<lambda>x. - estProfitUsd x) opportunities"

text \<open>The \<open>for ... of\<close> loop over the sorted opportunities, with its \<open>break\<close>.\<close>

fun processOpportunities ::
  "'w collaborators \<Rightarrow> ArbConfig \<Rightarrow> int \<Rightarrow> Opportunity list \<Rightarrow> ('w, unit) prog" where
  "processOpportunities c cfg now [] = done_with ()"
| "processOpportunities c cfg now (opportunity # rest) =
     (\<lambda>s. if activeTrades s \<ge> maxConcurrentTrades cfg then (Inr (), s)
          else andThen (handleOpportunity c opportunity now)
                 (\<lambda>_. processOpportunities c cfg now rest) s)"

definition summaryLine :: "nat \<Rightarrow> failureCounters \<Rightarrow> Opportunity list \<Rightarrow> log_line" where
  "summaryLine nMarkets k opportunities =
     (case opportunities of
        [] \<Rightarrow> ScanComplete nMarkets (orderbookFailures k) (marketsWithOrderbookFailures k)
      | best # _ \<Rightarrow>
          FoundOpportunities (length opportunities) (marketId best) (edgeBps best)
            (estProfitUsd best) (sizeUsd best)
            (orderbookFailures k) (marketsWithOrderbookFailures k))"

text \<open>The body of the \<open>try\<close> block of \<open>scanOnce\<close>.\<close>

definition scanBody :: "'w collaborators \<Rightarrow> ArbConfig \<Rightarrow> int \<Rightarrow> ('w, unit) prog" where
  "scanBody c cfg now =
     andThen (invoke Call_getActiveMarkets (provider_getActiveMarkets c))
       (\<lambda>markets. andThen
          (buildSnapshots c markets
             \<lparr>orderbookFailures = 0, marketsWithOrderbookFailures = 0\<rparr>)
       (\<lambda>built. andThen
          (invoke (Call_findOpportunities (fst built))
             (strategy_findOpportunities c (fst built) now))
       (\<lambda>found. andThen
          (logger Info (summaryLine (length markets) (snd built) (sortByProfit found)))
       (\<lambda>_. processOpportunities c cfg now (sortByProfit found)))))"

definition scanOnce :: "'w collaborators \<Rightarrow> ArbConfig \<Rightarrow> int \<Rightarrow> ('w, unit) prog" where
  "scanOnce c cfg now =
     tryCatch (scanBody c cfg now) (\<lambda>err. logger Warn (ScanError (message err)))"

subsection \<open>The loop\<close>

definition stop :: "'w engine \<Rightarrow> 'w engine" where
  "stop s = s\<lparr>running := False\<rparr>"

text \<open>The \<open>while (this.running)\<close> loop of \<open>start\<close>. Each iteration is given what the
  environment decides: the instant \<open>Date.now()\<close> returns, and whether \<open>stop()\<close> is
  called before the loop tests \<open>running\<close> again. The sleep between scans has no effect
  on the engine's fields. The list holds the iterations made so far: a loop that is never
  stopped has no last iteration, and the engine is looked at after any number of them.\<close>

fun startLoop ::
  "'w collaborators \<Rightarrow> ArbConfig \<Rightarrow> (int \<times> bool) list \<Rightarrow> 'w engine \<Rightarrow> 'w engine" where
  "startLoop c cfg [] s = s"
| "startLoop c cfg (iteration # rest) s =
     (if running s then
        (let s1 = snd (scanOnce c cfg (fst iteration) s);
             s2 = (if snd iteration then stop s1 else s1)
         in startLoop c cfg rest s2)
      else s)"

definition start ::
  "'w collaborators \<Rightarrow> ArbConfig \<Rightarrow> (int \<times> bool) list \<Rightarrow> 'w engine \<Rightarrow> 'w engine" where
  "start c cfg iterations s =
     (if running s then s
      else startLoop c cfg iterations
             (snd (logger Info EngineStarted (s\<lparr>running := True\<rparr>))))"

section \<open>The orderbook limiter\<close>

text \<open>The engine builds its limiter as \<open>new Semaphore(6)\<close> and wraps the closure of
  every market in \<open>orderbookLimiter.with\<close>; inside one closure the NO top is fetched only
  after the YES top has come back.\<close>

definition orderbookLimiterPermits :: nat where
  "orderbookLimiterPermits = 6"

text \<open>Modelled from the spec: the class \<open>Semaphore\<close> (utils/limiter) is not among the
  sources; section 4.1 of the specification gives its contract. This is where one closure
  handed to \<open>with\<close> stands: waiting for a permit, holding one with the YES or the NO
  fetch in flight, or finished (by returning or by throwing) with the permit given
  back.\<close>

datatype slot = Queued | FetchingYes | FetchingNo | Returned | Thrown

text \<open>Modelled from the spec: the limiter is its free permits and the closures handed
  to it so far.\<close>

record limiter =
  permits :: nat
  slots :: "slot list"

text \<open>Modelled from the spec: what can happen next. The scan hands one more closure to
  \<open>with\<close>, the limiter grants a permit to a queued closure, a fetch of a running
  closure comes back, or a fetch of a running closure throws an error that the safe
  wrapper lets through.\<close>

datatype limiter_action =
    With
  | Grant nat
  | YesReturned nat
  | NoReturned nat
  | FetchThrew nat

text \<open>Modelled from the spec: a limiter of N permits, all free.\<close>

definition newLimiter :: "nat \<Rightarrow> limiter" where
  "newLimiter n = \<lparr>permits = n, slots = []\<rparr>"

text \<open>Modelled from the spec: \<open>Semaphore.with\<close>, missing from the sources. By section
  4.1, \<open>with\<close> acquires one of N permits, callers beyond N wait until a permit frees,
  the operation runs, and the permit is released on both the success and the failure
  path; no order of granting is fixed. A step that the contract does not allow has no
  successor.\<close>

fun limiterStep :: "limiter_action \<Rightarrow> limiter \<Rightarrow> limiter option" where
  "limiterStep With l = Some (l\<lparr>slots := slots l @ [Queued]\<rparr>)"
| "limiterStep (Grant i) l =
     (if i < length (slots l) \<and> slots l ! i = Queued \<and> 0 < permits l
      then Some (l\<lparr>permits := permits l - 1, slots := (slots l)[i := FetchingYes]\<rparr>)
      else None)"
| "limiterStep (YesReturned i) l =
     (if i < length (slots l) \<and> slots l ! i = FetchingYes
      then Some (l\<lparr>slots := (slots l)[i := FetchingNo]\<rparr>)
      else None)"
| "limiterStep (NoReturned i) l =
     (if i < length (slots l) \<and> slots l ! i = FetchingNo
      then Some (l\<lparr>permits := permits l + 1, slots := (slots l)[i := Returned]\<rparr>)
      else None)"
| "limiterStep (FetchThrew i) l =
     (if i < length (slots l) \<and> (slots l ! i = FetchingYes \<or> slots l ! i = FetchingNo)
      then Some (l\<lparr>permits := permits l + 1, slots := (slots l)[i := Thrown]\<rparr>)
      else None)"

text \<open>Modelled from the spec: a schedule, the steps taken one after the other in any
  order the contract allows.\<close>

fun runLimiter :: "limiter_action list \<Rightarrow> limiter \<Rightarrow> limiter option" where
  "runLimiter [] l = Some l"
| "runLimiter (a # as) l =
     (case limiterStep a l of None \<Rightarrow> None | Some l' \<Rightarrow> runLimiter as l')"

fun fetching :: "slot \<Rightarrow> bool" where
  "fetching Queued = False"
| "fetching FetchingYes = True"
| "fetching FetchingNo = True"
| "fetching Returned = False"
| "fetching Thrown = False"

text \<open>The orderbook fetches in flight: one for each closure that holds a permit.\<close>

definition inFlight :: "limiter \<Rightarrow> nat" where
  "inFlight l = length (filter fetching (slots l))"

fun settled :: "slot \<Rightarrow> bool" where
  "settled Queued = False"
| "settled FetchingYes = False"
| "settled FetchingNo = False"
| "settled Returned = True"
| "settled Thrown = True"

text \<open>The scan's own part: \<open>markets.map\<close> hands one closure per market to \<open>with\<close>.\<close>

definition scanSubmits :: "Market list \<Rightarrow> limiter_action list" where
  "scanSubmits markets = map (\<lambda>market. With) markets"

section \<open>Reading a trace\<close>

text \<open>The effects a method added to the trace.\<close>

definition newEvents :: "'w engine \<Rightarrow> 'w engine \<Rightarrow> event list" where
  "newEvents s s' = drop (length (trace s)) (trace s')"

text \<open>The opportunities for which \<open>handleOpportunity\<close> was entered (its first statement
  calls \<open>canExecute\<close> on the opportunity), and the plans handed to the executor.\<close>

fun attempted :: "event list \<Rightarrow> Opportunity list" where
  "attempted [] = []"
| "attempted (Call_canExecute opportunity # evs) = opportunity # attempted evs"
| "attempted (e # evs) = attempted evs"

fun executed :: "event list \<Rightarrow> ExecutionPlan list" where
  "executed [] = []"
| "executed (Call_execute plan # evs) = plan # executed evs"
| "executed (e # evs) = executed evs"

fun appended :: "event list \<Rightarrow> DecisionRecord list" where
  "appended [] = []"
| "appended (Call_append row # evs) = row # appended evs"
| "appended (e # evs) = appended evs"

text \<open>The values \<open>activeTrades\<close> took.\<close>

fun activeTradesWritten :: "event list \<Rightarrow> int list" where
  "activeTradesWritten [] = []"
| "activeTradesWritten (ActiveTradesSet n # evs) = n # activeTradesWritten evs"
| "activeTradesWritten (e # evs) = activeTradesWritten evs"

text \<open>Effects that neither enter \<open>handleOpportunity\<close> nor submit a trade nor write
  the counter: log lines, the provider's and the strategy's calls, the gas check, the
  settlement callbacks, and the appending of an audit row whose status follows its
  action.\<close>

definition statusFollowsAction :: "DecisionRecord \<Rightarrow> bool" where
  "statusFollowsAction row =
     (if action row = ''trade''
      then status row = ''submitted'' \<and> (reason row = ''submitted'' \<or> reason row = ''dry_run'')
      else action row = ''skip'' \<and> status row = ''skipped'')"

fun bookkeeping :: "event \<Rightarrow> bool" where
  "bookkeeping (Log l line) = True"
| "bookkeeping Call_getActiveMarkets = True"
| "bookkeeping (Call_getOrderBookTop tokenId) = True"
| "bookkeeping (Call_findOpportunities snapshots) = True"
| "bookkeeping (Call_canExecute opportunity) = False"
| "bookkeeping Call_ensureGasBalance = True"
| "bookkeeping (Call_onTradeSubmitted opportunity) = False"
| "bookkeeping (Call_execute plan) = False"
| "bookkeeping (Call_onTradeSuccess opportunity) = True"
| "bookkeeping (Call_onTradeFailure opportunity why) = True"
| "bookkeeping (Call_append row) = statusFollowsAction row"
| "bookkeeping (ActiveTradesSet n) = False"

text \<open>A step that leaves \<open>running\<close> and \<open>activeTrades\<close> alone and adds only such
  effects, and a statement all of whose runs are such steps.\<close>

definition quietStep :: "'w engine \<Rightarrow> 'w engine \<Rightarrow> bool" where
  "quietStep s s' \<longleftrightarrow>
     (\<exists>w evs. s' = s\<lparr>world := w, trace := trace s @ evs\<rparr> \<and> list_all bookkeeping evs)"

definition quietly :: "('w, 'a) prog \<Rightarrow> bool" where
  "quietly m \<longleftrightarrow> (\<forall>s. quietStep s (snd (m s)))"

section \<open>What the specification asks for\<close>

text \<open>The admission cap holds now and held at every write of the counter so far.\<close>

definition withinCap :: "ArbConfig \<Rightarrow> 'w engine \<Rightarrow> bool" where
  "withinCap cfg s \<longleftrightarrow>
     activeTrades s \<le> maxConcurrentTrades cfg \<and>
     list_all (\<lambda>n. n \<le> maxConcurrentTrades cfg) (activeTradesWritten (trace s))"

text \<open>Non-increasing estimated profit, for opportunities and for plans.\<close>

definition nonIncreasingProfit :: "'a ExecutionPlan_scheme list \<Rightarrow> bool" where
  "nonIncreasingProfit xs = sorted_wrt (\<lambda>a b. estProfitUsd b \<le> estProfitUsd a) xs"

text \<open>What one scan may do to the engine: \<open>running\<close> is kept, and in the effects it
  adds the opportunities attempted and the plans executed come in non-increasing profit
  and every appended row has the status of its action.\<close>

definition scanEffect :: "'w engine \<Rightarrow> 'w engine \<Rightarrow> bool" where
  "scanEffect s s' \<longleftrightarrow>
     (\<exists>w evs a. s' = s\<lparr>activeTrades := a, world := w, trace := trace s @ evs\<rparr> \<and>
        nonIncreasingProfit (attempted evs) \<and> nonIncreasingProfit (executed evs) \<and>
        list_all statusFollowsAction (appended evs))"

text \<open>The audit row of section 3 of the specification for an opportunity, with the
  action, reason, planned size, transaction hash and status given.\<close>

definition decisionRow ::
  "Opportunity \<Rightarrow> int \<Rightarrow> string \<Rightarrow> string \<Rightarrow> real option \<Rightarrow> string option \<Rightarrow> string \<Rightarrow>
     DecisionRecord" where
  "decisionRow opportunity now act why planned txHash st =
     \<lparr>ts = now, market_id = marketId opportunity, yes_ask = yesAsk opportunity,
      no_ask = noAsk opportunity, edge_bps = edgeBps opportunity,
      liquidity = liquidityUsd opportunity, spread_bps = spreadBps opportunity,
      est_profit_usd = estProfitUsd opportunity, action = act, reason = why,
      planned_size = planned, tx_hash = txHash, status = st\<rparr>"


text \<open>\<open>orderbookFailures\<close> as the specification defines it: the number of failed
  sides.\<close>

fun failedSides :: "((OrderBookTop \<times> bool) \<times> (OrderBookTop \<times> bool)) list \<Rightarrow> nat" where
  "failedSides [] = 0"
| "failedSides (r # rs) =
     (if snd (fst r) then 1 else 0) + (if snd (snd r) then 1 else 0) + failedSides rs"




section \<open>Example collaborators\<close>

definition market1 :: Market where
  "market1 = \<lparr>marketId = ''M1'', yesTokenId = ''Y1'', noTokenId = ''N1''\<rparr>"

definition market2 :: Market where
  "market2 = \<lparr>marketId = ''M2'', yesTokenId = ''Y2'', noTokenId = ''N2''\<rparr>"

definition opportunityOn :: "Market \<Rightarrow> real \<Rightarrow> Opportunity" where
  "opportunityOn m profit =
     \<lparr>marketId = marketId m, yesTokenId = yesTokenId m, noTokenId = noTokenId m,
      yesAsk = 2 / 5, noAsk = 1 / 2, sizeUsd = 100, edgeBps = 1000,
      estProfitUsd = profit, liquidityUsd = 5000, spreadBps = 20\<rparr>"

text \<open>A provider that lists two markets and does not know the token N2, a strategy that
  reports the less profitable opportunity first, a risk manager that lets everything
  through, an executor that submits, and a decision logger.\<close>

definition exampleCollaborators :: "unit collaborators" where
  "exampleCollaborators =
     \<lparr>provider_getActiveMarkets = (\<lambda>w. (Inr [market1, market2], w)),
      provider_getOrderBookTop =
        (\<lambda>tokenId w. (if tokenId = ''N2'' then Inl (OrderbookNotFoundError ''not found'')
                       else Inr \<lparr>bestAsk = 2 / 5, bestBid = 3 / 10\<rparr>, w)),
      strategy_findOpportunities =
        (\<lambda>snapshots now w. (Inr [opportunityOn market2 5, opportunityOn market1 10], w)),
      riskManager_canExecute =
        (\<lambda>opportunity now w. (Inr \<lparr>allowed = True, decision_reason = None\<rparr>, w)),
      riskManager_ensureGasBalance = (\<lambda>now w. (Inr \<lparr>ok = True\<rparr>, w)),
      riskManager_onTradeSubmitted = (\<lambda>opportunity now w. (Inr (), w)),
      riskManager_onTradeSuccess = (\<lambda>opportunity now w. (Inr (), w)),
      riskManager_onTradeFailure = (\<lambda>opportunity now why w. (Inr (), w)),
      executor_execute =
        (\<lambda>plan now w. (Inr \<lparr>result_status = ''submitted'', result_reason = None,
                               txHashes = Some [''0xabc'']\<rparr>, w)),
      decisionLogger = Some (\<lambda>row w. (Inr (), w))\<rparr>"

definition exampleConfig :: ArbConfig where
  "exampleConfig = \<lparr>scanIntervalMs = 1000, maxConcurrentTrades = 5\<rparr>"

definition exampleNow :: int where
  "exampleNow = 1700000000000"

text \<open>The same, with an executor whose \<open>execute\<close> throws.\<close>

definition throwingExecutor :: "unit collaborators" where
  "throwingExecutor =
     exampleCollaborators
       \<lparr>executor_execute := (\<lambda>plan now w. (Inl (OtherError ''execution reverted''), w))\<rparr>"

text \<open>The same, with a risk manager that rejects every opportunity, with and without a
  decision logger.\<close>

definition rejectingRiskManager :: "unit collaborators" where
  "rejectingRiskManager =
     exampleCollaborators
       \<lparr>riskManager_canExecute :=
          (\<lambda>opportunity now w.
             (Inr \<lparr>allowed = False, decision_reason = Some ''EXPOSURE_LIMIT''\<rparr>, w))\<rparr>"

definition withoutDecisionLogger :: "unit collaborators \<Rightarrow> unit collaborators" where
  "withoutDecisionLogger c = c\<lparr>decisionLogger := None\<rparr>"

text \<open>An executor in dry-run mode, and one whose order is refused.\<close>

definition dryRunExecutor :: "unit collaborators" where
  "dryRunExecutor =
     exampleCollaborators
       \<lparr>executor_execute :=
          (\<lambda>plan now w. (Inr \<lparr>result_status = ''dry_run'', result_reason = None,
                                 txHashes = None\<rparr>, w))\<rparr>"

definition failingExecutor :: "unit collaborators" where
  "failingExecutor =
     exampleCollaborators
       \<lparr>executor_execute :=
          (\<lambda>plan now w. (Inr \<lparr>result_status = ''failed'',
                                 result_reason = Some ''insufficient liquidity'',
                                 txHashes = None\<rparr>, w))\<rparr>"

text \<open>A risk manager that finds too little gas.\<close>

definition lowGasRiskManager :: "unit collaborators" where
  "lowGasRiskManager =
     exampleCollaborators\<lparr>riskManager_ensureGasBalance := (\<lambda>now w. (Inr \<lparr>ok = False\<rparr>, w))\<rparr>"

text \<open>More markets than the limiter has permits.\<close>

definition sevenMarkets :: "Market list" where
  "sevenMarkets = replicate 7 market1"

section \<open>Sequencing\<close>

text \<open>How a relation between the engine before and after a statement carries over the sequence of two statements and over a \<open>try\<close> block: the first statement may throw, and then the second never runs.\<close>

lemma andThen_Inl: "m s = (Inl e, s1) \<Longrightarrow> andThen m k s = (Inl e, s1)"
  by (simp add: andThen_def)

lemma andThen_Inr: "m s = (Inr a, s1) \<Longrightarrow> andThen m k s = k a s1"
  by (simp add: andThen_def)

lemma andThen_rel:
  assumes m: "\<And>s. Q s (snd (m s))"
    and k: "\<And>a s. R s (snd (k a s))"
    and QR: "\<And>x y z. Q x y \<Longrightarrow> R y z \<Longrightarrow> T x z"
    and QT: "\<And>x y. Q x y \<Longrightarrow> T x y"
  shows "T s (snd (andThen m k s))"
proof (cases "m s")
  case (Pair r s1)
  with m [of s] have q: "Q s s1" by simp
  show ?thesis
  proof (cases r)
    case (Inl e)
    with Pair have "andThen m k s = (Inl e, s1)" by (simp add: andThen_Inl)
    with q QT show ?thesis by simp
  next
    case (Inr a)
    with Pair have "andThen m k s = k a s1" by (simp add: andThen_Inr)
    with q k [of s1 a] QR show ?thesis by auto
  qed
qed

lemma tryCatch_rel:
  assumes m: "\<And>s. Q s (snd (m s))"
    and k: "\<And>e s. R s (snd (h e s))"
    and QR: "\<And>x y z. Q x y \<Longrightarrow> R y z \<Longrightarrow> T x z"
    and QT: "\<And>x y. Q x y \<Longrightarrow> T x y"
  shows "T s (snd (tryCatch m h s))"
proof (cases "m s")
  case (Pair r s1)
  with m [of s] have q: "Q s s1" by simp
  show ?thesis
  proof (cases r)
    case (Inl e)
    with Pair have "tryCatch m h s = h e s1" by (simp add: tryCatch_def)
    with q k [of s1 e] QR show ?thesis by auto
  next
    case (Inr a)
    with Pair have "tryCatch m h s = (Inr a, s1)" by (simp add: tryCatch_def)
    with q QT show ?thesis by simp
  qed
qed

lemmas engine_defs = scanOnce_def scanBody_def tryCatch_def andThen_def invoke_def done_with_def
  logger_def emit_def getOrderBookTopSafe_def snapshotTask_def sortByProfit_def summaryLine_def
  handleOpportunity_def submit_def settle_def logDecision_def planOf_def addActiveTrades_def
  toISOString_def validTime_def zeroTop_def newEngine_def Let_def

lemmas example_defs = exampleCollaborators_def throwingExecutor_def rejectingRiskManager_def
  withoutDecisionLogger_def market1_def market2_def opportunityOn_def exampleConfig_def
  exampleNow_def lowGasRiskManager_def
  failingExecutor_def dryRunExecutor_def sevenMarkets_def

section \<open>Quiet statements\<close>

text \<open>The statements that only log, call the provider or append audit rows are quiet, and so is every sequence of quiet statements.\<close>

lemma quietlyI:
  "(\<And>s. \<exists>w evs. snd (m s) = s\<lparr>world := w, trace := trace s @ evs\<rparr> \<and> list_all bookkeeping evs)
   \<Longrightarrow> quietly m"
  by (simp add: quietly_def quietStep_def)

lemma quietlyD:
  "quietly m \<Longrightarrow> \<exists>w evs. snd (m s) = s\<lparr>world := w, trace := trace s @ evs\<rparr> \<and> list_all bookkeeping evs"
  by (simp add: quietly_def quietStep_def)

lemma quietly_step: "quietly m \<Longrightarrow> quietStep s (snd (m s))"
  by (simp add: quietly_def)

lemma quietly_done_with: "quietly (done_with a)"
proof (rule quietlyI)
  fix s :: "'a engine"
  show "\<exists>w evs. snd (done_with a s) = s\<lparr>world := w, trace := trace s @ evs\<rparr> \<and> list_all bookkeeping evs"
    by (intro exI [of _ "world s"] exI [of _ "[]"]) (simp add: done_with_def)
qed

lemma quietly_throw: "quietly (\<lambda>s. (r, s))"
proof (rule quietlyI)
  fix s :: "'a engine"
  show "\<exists>w evs. snd (r, s) = s\<lparr>world := w, trace := trace s @ evs\<rparr> \<and> list_all bookkeeping evs"
    by (intro exI [of _ "world s"] exI [of _ "[]"]) simp
qed

lemma quietly_emit: "bookkeeping e \<Longrightarrow> quietly (emit e)"
proof (rule quietlyI)
  fix s :: "'a engine"
  assume b: "bookkeeping e"
  then show "\<exists>w evs. snd (emit e s) = s\<lparr>world := w, trace := trace s @ evs\<rparr> \<and> list_all bookkeeping evs"
    by (intro exI [of _ "world s"] exI [of _ "[e]"]) (simp add: emit_def)
qed

lemma quietly_logger: "quietly (logger l line)"
  by (simp add: logger_def quietly_emit)

lemma quietly_invoke: "bookkeeping e \<Longrightarrow> quietly (invoke e f)"
proof (rule quietlyI)
  fix s :: "'a engine"
  assume b: "bookkeeping e"
  then show "\<exists>w evs. snd (invoke e f s) = s\<lparr>world := w, trace := trace s @ evs\<rparr> \<and> list_all bookkeeping evs"
    by (intro exI [of _ "snd (f (world s))"] exI [of _ "[e]"])
       (simp add: invoke_def split: prod.splits)
qed

lemma quiet_then_quiet:
  assumes 1: "s1 = s\<lparr>world := w1, trace := trace s @ evs1\<rparr>" and b1: "list_all bookkeeping evs1"
    and 2: "s2 = s1\<lparr>world := w2, trace := trace s1 @ evs2\<rparr>" and b2: "list_all bookkeeping evs2"
  shows "s2 = s\<lparr>world := w2, trace := trace s @ (evs1 @ evs2)\<rparr> \<and> list_all bookkeeping (evs1 @ evs2)"
  using assms by simp

lemma quietly_andThen:
  assumes m: "quietly m" and k: "\<And>a. quietly (k a)"
  shows "quietly (andThen m k)"
proof (rule quietlyI)
  fix s
  obtain r s1 where ms: "m s = (r, s1)" by (cases "m s")
  from quietlyD [OF m, of s] ms obtain w1 evs1
    where 1: "s1 = s\<lparr>world := w1, trace := trace s @ evs1\<rparr>" and b1: "list_all bookkeeping evs1"
    by auto
  show "\<exists>w evs. snd (andThen m k s) = s\<lparr>world := w, trace := trace s @ evs\<rparr> \<and> list_all bookkeeping evs"
  proof (cases r)
    case (Inl e)
    with ms have "snd (andThen m k s) = s1" by (simp add: andThen_Inl)
    with 1 b1 show ?thesis by blast
  next
    case (Inr a)
    with ms have eq: "andThen m k s = k a s1" by (simp add: andThen_Inr)
    from quietlyD [OF k, of a s1] obtain w2 evs2
      where 2: "snd (k a s1) = s1\<lparr>world := w2, trace := trace s1 @ evs2\<rparr>"
        and b2: "list_all bookkeeping evs2"
      by auto
    from quiet_then_quiet [OF 1 b1 2 b2] eq show ?thesis by metis
  qed
qed

lemma quietly_tryCatch:
  assumes m: "quietly m" and k: "\<And>e. quietly (h e)"
  shows "quietly (tryCatch m h)"
proof (rule quietlyI)
  fix s
  obtain r s1 where ms: "m s = (r, s1)" by (cases "m s")
  from quietlyD [OF m, of s] ms obtain w1 evs1
    where 1: "s1 = s\<lparr>world := w1, trace := trace s @ evs1\<rparr>" and b1: "list_all bookkeeping evs1"
    by auto
  show "\<exists>w evs. snd (tryCatch m h s) = s\<lparr>world := w, trace := trace s @ evs\<rparr> \<and> list_all bookkeeping evs"
  proof (cases r)
    case (Inr a)
    with ms have "snd (tryCatch m h s) = s1" by (simp add: tryCatch_def)
    with 1 b1 show ?thesis by blast
  next
    case (Inl e)
    with ms have eq: "tryCatch m h s = h e s1" by (simp add: tryCatch_def)
    from quietlyD [OF k, of e s1] obtain w2 evs2
      where 2: "snd (h e s1) = s1\<lparr>world := w2, trace := trace s1 @ evs2\<rparr>"
        and b2: "list_all bookkeeping evs2"
      by auto
    from quiet_then_quiet [OF 1 b1 2 b2] eq show ?thesis by metis
  qed
qed

lemma quietly_getOrderBookTopSafe: "quietly (getOrderBookTopSafe c tokenId mId)"
  unfolding getOrderBookTopSafe_def
  by (intro quietly_tryCatch quietly_andThen quietly_invoke quietly_done_with)
     (simp_all add: quietly_andThen quietly_logger quietly_done_with quietly_throw)

lemma quietly_snapshotTask: "quietly (snapshotTask c market k)"
  unfolding snapshotTask_def Let_def
  by (intro quietly_andThen quietly_getOrderBookTopSafe quietly_done_with)

lemma quietly_buildSnapshots: "quietly (buildSnapshots c markets k)"
  by (induction markets arbitrary: k)
     (simp_all add: quietly_done_with quietly_andThen quietly_snapshotTask)

lemma quietly_logDecision:
  assumes "act = ''trade'' \<and> (why = ''submitted'' \<or> why = ''dry_run'') \<or> act = ''skip''"
  shows "quietly (logDecision c opportunity act why now planned txHash)"
proof (cases "decisionLogger c")
  case None
  then show ?thesis by (simp add: logDecision_def quietly_done_with)
next
  case (Some appendRow)
  have "quietly (andThen (\<lambda>s. (toISOString now, s)) (\<lambda>iso. invoke (Call_append (decisionRow opportunity iso act why planned txHash (if act = ''trade'' then ''submitted'' else ''skipped''))) (appendRow (decisionRow opportunity iso act why planned txHash (if act = ''trade'' then ''submitted'' else ''skipped'')))))"
    using assms
    by (intro quietly_andThen quietly_throw quietly_invoke)
       (auto simp add: statusFollowsAction_def decisionRow_def)
  with Some show ?thesis by (simp add: logDecision_def decisionRow_def Let_def)
qed

lemma quietly_settle: "quietly (settle c opportunity now result)"
  unfolding settle_def
  by (auto intro!: quietly_andThen quietly_invoke quietly_logDecision)

lemma quietly_skip:
  "quietly (andThen (logger l line) (\<lambda>_. logDecision c opp ''skip'' why now None None))"
  by (intro quietly_andThen quietly_logger quietly_logDecision) simp

section \<open>The effects of one opportunity\<close>

text \<open>What \<open>handleOpportunity\<close> adds to the trace and does to the counter, on every path through it, the throwing ones included.\<close>

lemma attempted_append: "attempted (xs @ ys) = attempted xs @ attempted ys"
  by (induction xs rule: attempted.induct) simp_all

lemma executed_append: "executed (xs @ ys) = executed xs @ executed ys"
  by (induction xs rule: executed.induct) simp_all

lemma appended_append: "appended (xs @ ys) = appended xs @ appended ys"
  by (induction xs rule: appended.induct) simp_all

lemma activeTradesWritten_append:
  "activeTradesWritten (xs @ ys) = activeTradesWritten xs @ activeTradesWritten ys"
  by (induction xs rule: activeTradesWritten.induct) simp_all

lemma bookkeeping_attempted: "list_all bookkeeping evs \<Longrightarrow> attempted evs = []"
  by (induction evs rule: attempted.induct) simp_all

lemma bookkeeping_executed: "list_all bookkeeping evs \<Longrightarrow> executed evs = []"
  by (induction evs rule: executed.induct) simp_all

lemma bookkeeping_written: "list_all bookkeeping evs \<Longrightarrow> activeTradesWritten evs = []"
  by (induction evs rule: activeTradesWritten.induct) simp_all

lemma bookkeeping_appended:
  "list_all bookkeeping evs \<Longrightarrow> list_all statusFollowsAction (appended evs)"
  by (induction evs rule: appended.induct) simp_all

lemmas bookkeeping_reads =
  bookkeeping_attempted bookkeeping_executed bookkeeping_written bookkeeping_appended

lemmas reads_append =
  attempted_append executed_append appended_append activeTradesWritten_append

lemma submit_summary:
  "\<exists>w evs a. snd (submit c opp now s) = s\<lparr>activeTrades := a, world := w, trace := trace s @ evs\<rparr> \<and>
     attempted evs = [] \<and> (executed evs = [] \<or> executed evs = [planOf opp]) \<and>
     list_all statusFollowsAction (appended evs) \<and>
     (activeTradesWritten evs = [activeTrades s + 1] \<and> a = activeTrades s + 1 \<or>
      activeTradesWritten evs = [activeTrades s + 1, activeTrades s] \<and> a = activeTrades s)"
proof -
  let ?a = "activeTrades s"
  obtain r2 w2 where f: "riskManager_onTradeSubmitted c opp now (world s) = (r2, w2)"
    by (cases "riskManager_onTradeSubmitted c opp now (world s)")
  show ?thesis
  proof (cases r2)
    case (Inl e)
    with f have "snd (submit c opp now s) =
        s\<lparr>activeTrades := ?a + 1, world := w2,
          trace := trace s @ [ActiveTradesSet (?a + 1), Call_onTradeSubmitted opp]\<rparr>"
      by (simp add: submit_def andThen_def addActiveTrades_def invoke_def)
    then show ?thesis
      by (intro exI [of _ w2] exI [of _ "[ActiveTradesSet (?a + 1), Call_onTradeSubmitted opp]"]
          exI [of _ "?a + 1"]) simp
  next
    case u: (Inr u)
    obtain r3 w3 where g: "executor_execute c (planOf opp) now w2 = (r3, w3)"
      by (cases "executor_execute c (planOf opp) now w2")
    show ?thesis
    proof (cases r3)
      case (Inl e)
      with f g u have "snd (submit c opp now s) =
          s\<lparr>activeTrades := ?a + 1, world := w3,
            trace := trace s @ [ActiveTradesSet (?a + 1), Call_onTradeSubmitted opp,
                                Call_execute (planOf opp)]\<rparr>"
        by (simp add: submit_def andThen_def addActiveTrades_def invoke_def)
      then show ?thesis
        by (intro exI [of _ w3]
            exI [of _ "[ActiveTradesSet (?a + 1), Call_onTradeSubmitted opp,
                        Call_execute (planOf opp)]"]
            exI [of _ "?a + 1"]) simp
    next
      case (Inr result)
      let ?pre = "[ActiveTradesSet (?a + 1), Call_onTradeSubmitted opp,
                   Call_execute (planOf opp), ActiveTradesSet ?a]"
      let ?s4 = "s\<lparr>world := w3, trace := trace s @ ?pre\<rparr>"
      from f g u Inr have eq: "submit c opp now s = settle c opp now result ?s4"
        by (simp add: submit_def andThen_def addActiveTrades_def invoke_def)
      from quietlyD [OF quietly_settle, of c opp now result ?s4] obtain w evs
        where 5: "snd (settle c opp now result ?s4) = ?s4\<lparr>world := w, trace := trace ?s4 @ evs\<rparr>"
          and b: "list_all bookkeeping evs"
        by blast
      from eq 5 have "snd (submit c opp now s) =
          s\<lparr>activeTrades := ?a, world := w, trace := trace s @ (?pre @ evs)\<rparr>"
        by simp
      with b show ?thesis
        by (intro exI [of _ w] exI [of _ "?pre @ evs"] exI [of _ "?a"])
           (simp add: bookkeeping_reads reads_append)
    qed
  qed
qed

lemma handleOpportunity_summary:
  "\<exists>w evs a. snd (handleOpportunity c opp now s) =
       s\<lparr>activeTrades := a, world := w, trace := trace s @ evs\<rparr> \<and>
     attempted evs = [opp] \<and> (executed evs = [] \<or> executed evs = [planOf opp]) \<and>
     list_all statusFollowsAction (appended evs) \<and>
     (activeTradesWritten evs = [] \<and> a = activeTrades s \<or>
      activeTradesWritten evs = [activeTrades s + 1] \<and> a = activeTrades s + 1 \<or>
      activeTradesWritten evs = [activeTrades s + 1, activeTrades s] \<and> a = activeTrades s)"
proof -
  let ?a = "activeTrades s"
  obtain r1 w1 where f: "riskManager_canExecute c opp now (world s) = (r1, w1)"
    by (cases "riskManager_canExecute c opp now (world s)")
  let ?s1 = "s\<lparr>world := w1, trace := trace s @ [Call_canExecute opp]\<rparr>"
  show ?thesis
  proof (cases r1)
    case (Inl e)
    with f have "snd (handleOpportunity c opp now s) = ?s1"
      by (simp add: handleOpportunity_def andThen_def invoke_def)
    then show ?thesis
      by (intro exI [of _ w1] exI [of _ "[Call_canExecute opp]"] exI [of _ "?a"]) simp
  next
    case d: (Inr decision)
    show ?thesis
    proof (cases "allowed decision")
      case False
      let ?m = "andThen (logger Info
                       (SkipLine (marketId opp)
                          (orElse (decision_reason decision) ''filtered'')
                          (edgeBps opp) (estProfitUsd opp) (sizeUsd opp)))
              (\<lambda>_. logDecision c opp ''skip''
                      (orElse (decision_reason decision) ''filtered'') now None None)"
      from f d False have eq: "handleOpportunity c opp now s = ?m ?s1"
        by (simp add: handleOpportunity_def andThen_def invoke_def)
      from quietlyD [OF quietly_skip, of _ _ c opp _ now ?s1] obtain w evs
        where 2: "snd (?m ?s1) = ?s1\<lparr>world := w, trace := trace ?s1 @ evs\<rparr>"
          and b: "list_all bookkeeping evs"
        by blast
      from eq 2 have "snd (handleOpportunity c opp now s) =
          s\<lparr>activeTrades := ?a, world := w, trace := trace s @ (Call_canExecute opp # evs)\<rparr>"
        by simp
      with b show ?thesis
        by (intro exI [of _ w] exI [of _ "Call_canExecute opp # evs"] exI [of _ "?a"])
           (simp add: bookkeeping_reads)
    next
      case True
      obtain r2 w2 where g: "riskManager_ensureGasBalance c now w1 = (r2, w2)"
        by (cases "riskManager_ensureGasBalance c now w1")
      let ?pre = "[Call_canExecute opp, Call_ensureGasBalance]"
      let ?s2 = "s\<lparr>world := w2, trace := trace s @ ?pre\<rparr>"
      show ?thesis
      proof (cases r2)
        case (Inl e)
        with f d True g have "snd (handleOpportunity c opp now s) = ?s2"
          by (simp add: handleOpportunity_def andThen_def invoke_def)
        then show ?thesis
          by (intro exI [of _ w2] exI [of _ ?pre] exI [of _ "?a"]) simp
      next
        case gc: (Inr gasCheck)
        show ?thesis
        proof (cases "ok gasCheck")
          case False
          let ?m = "andThen (logger Warn
                              (SkipLine (marketId opp) ''low_gas''
                                 (edgeBps opp) (estProfitUsd opp) (sizeUsd opp)))
                     (\<lambda>_. logDecision c opp ''skip'' ''low_gas'' now None None)"
          from f d True g gc False have eq: "handleOpportunity c opp now s = ?m ?s2"
            by (simp add: handleOpportunity_def andThen_def invoke_def)
          from quietlyD [OF quietly_skip, of _ _ c opp _ now ?s2] obtain w evs
            where 2: "snd (?m ?s2) = ?s2\<lparr>world := w, trace := trace ?s2 @ evs\<rparr>"
              and b: "list_all bookkeeping evs"
            by blast
          from eq 2 have "snd (handleOpportunity c opp now s) =
              s\<lparr>activeTrades := ?a, world := w, trace := trace s @ (?pre @ evs)\<rparr>"
            by simp
          with b show ?thesis
            by (intro exI [of _ w] exI [of _ "?pre @ evs"] exI [of _ "?a"])
               (simp add: bookkeeping_reads)
        next
          case ok: True
          from f d True g gc ok have eq: "handleOpportunity c opp now s = submit c opp now ?s2"
            by (simp add: handleOpportunity_def andThen_def invoke_def)
          from submit_summary [of c opp now ?s2] obtain w evs a
            where 3: "snd (submit c opp now ?s2) =
                ?s2\<lparr>activeTrades := a, world := w, trace := trace ?s2 @ evs\<rparr>"
              and at: "attempted evs = []"
              and ex: "executed evs = [] \<or> executed evs = [planOf opp]"
              and rows: "list_all statusFollowsAction (appended evs)"
              and wr: "activeTradesWritten evs = [?a + 1] \<and> a = ?a + 1 \<or>
                       activeTradesWritten evs = [?a + 1, ?a] \<and> a = ?a"
            by auto
          from eq 3 have "snd (handleOpportunity c opp now s) =
              s\<lparr>activeTrades := a, world := w, trace := trace s @ (?pre @ evs)\<rparr>"
            by simp
          with at ex rows wr show ?thesis
            by (intro exI [of _ w] exI [of _ "?pre @ evs"] exI [of _ a])
               (simp add: reads_append)
        qed
      qed
    qed
  qed
qed

section \<open>The safe fetch\<close>

lemma getOrderBookTopSafe_eq:
  "getOrderBookTopSafe c tokenId mId s =
     (case provider_getOrderBookTop c tokenId (world s) of
        (Inr t, w) \<Rightarrow>
          (Inr (t, False), s\<lparr>world := w, trace := trace s @ [Call_getOrderBookTop tokenId]\<rparr>)
      | (Inl err, w) \<Rightarrow>
          if isOrderbookNotFoundError err then
            (Inr (zeroTop, True),
             s\<lparr>world := w,
               trace := trace s @ [Call_getOrderBookTop tokenId,
                                   Log Warn (InvalidOrderbookToken tokenId mId)]\<rparr>)
          else
            (Inl err, s\<lparr>world := w, trace := trace s @ [Call_getOrderBookTop tokenId]\<rparr>))"
  by (simp add: getOrderBookTopSafe_def tryCatch_def andThen_def invoke_def done_with_def
      logger_def emit_def split: prod.splits sum.splits)



text \<open>Claim C4. For every token and market, the safe fetch returns the zeroed top with
  \<open>failed = true\<close>, without throwing, exactly when the provider's \<open>getOrderBookTop\<close>
  throws the not-found error (and then logs a warning); any other error of the provider is
  thrown on unchanged; and when the provider returns a top, the wrapper returns that top
  with \<open>failed = false\<close>.\<close>

theorem getOrderBookTopSafe_classifies_errors:
  "getOrderBookTopSafe c tokenId mId s =
     (case provider_getOrderBookTop c tokenId (world s) of
        (Inr t, w) \<Rightarrow>
          (Inr (t, False), s\<lparr>world := w, trace := trace s @ [Call_getOrderBookTop tokenId]\<rparr>)
      | (Inl err, w) \<Rightarrow>
          if isOrderbookNotFoundError err then
            (Inr (\<lparr>bestAsk = 0, bestBid = 0\<rparr>, True),
             s\<lparr>world := w,
               trace := trace s @ [Call_getOrderBookTop tokenId,
                                   Log Warn (InvalidOrderbookToken tokenId mId)]\<rparr>)
          else
            (Inl err, s\<lparr>world := w, trace := trace s @ [Call_getOrderBookTop tokenId]\<rparr>)) \<and>
   ((\<exists>t. fst (getOrderBookTopSafe c tokenId mId s) = Inr (t, True)) \<longleftrightarrow>
    (\<exists>err. fst (provider_getOrderBookTop c tokenId (world s)) = Inl err \<and>
           isOrderbookNotFoundError err))"
proof
  show "getOrderBookTopSafe c tokenId mId s =
     (case provider_getOrderBookTop c tokenId (world s) of
        (Inr t, w) \<Rightarrow>
          (Inr (t, False), s\<lparr>world := w, trace := trace s @ [Call_getOrderBookTop tokenId]\<rparr>)
      | (Inl err, w) \<Rightarrow>
          if isOrderbookNotFoundError err then
            (Inr (\<lparr>bestAsk = 0, bestBid = 0\<rparr>, True),
             s\<lparr>world := w,
               trace := trace s @ [Call_getOrderBookTop tokenId,
                                   Log Warn (InvalidOrderbookToken tokenId mId)]\<rparr>)
          else
            (Inl err, s\<lparr>world := w, trace := trace s @ [Call_getOrderBookTop tokenId]\<rparr>))"
    by (simp add: getOrderBookTopSafe_eq zeroTop_def split: prod.splits sum.splits)
  show "(\<exists>t. fst (getOrderBookTopSafe c tokenId mId s) = Inr (t, True)) \<longleftrightarrow>
    (\<exists>err. fst (provider_getOrderBookTop c tokenId (world s)) = Inl err \<and>
           isOrderbookNotFoundError err)"
    by (cases "provider_getOrderBookTop c tokenId (world s)")
       (auto simp add: getOrderBookTopSafe_eq split: sum.splits)
qed

text \<open>The three cases on the example provider: the unknown token N2, the known token
  Y2, and a provider that times out.\<close>

theorem getOrderBookTopSafe_classifies_errors_witness:
  "fst (getOrderBookTopSafe exampleCollaborators ''N2'' ''M2'' (newEngine ())) =
     Inr (\<lparr>bestAsk = 0, bestBid = 0\<rparr>, True) \<and>
   fst (getOrderBookTopSafe exampleCollaborators ''Y2'' ''M2'' (newEngine ())) =
     Inr (\<lparr>bestAsk = 2 / 5, bestBid = 3 / 10\<rparr>, False) \<and>
   fst (getOrderBookTopSafe
          (exampleCollaborators
             \<lparr>provider_getOrderBookTop := (\<lambda>tokenId w. (Inl (OtherError ''timeout''), w))\<rparr>)
          ''Y2'' ''M2'' (newEngine ())) = Inl (OtherError ''timeout'')"
  using getOrderBookTopSafe_classifies_errors
      [of exampleCollaborators "''N2''" "''M2''" "newEngine ()"]
    getOrderBookTopSafe_classifies_errors
      [of exampleCollaborators "''Y2''" "''M2''" "newEngine ()"]
    getOrderBookTopSafe_classifies_errors
      [of "exampleCollaborators
             \<lparr>provider_getOrderBookTop := (\<lambda>tokenId w. (Inl (OtherError ''timeout''), w))\<rparr>"
          "''Y2''" "''M2''" "newEngine ()"]
  by (simp add: example_defs newEngine_def)

section \<open>Snapshots and failure counters\<close>



lemma failedSides_Cons: "failedSides (r # rs) = failedSides [r] + failedSides rs"
  by simp





section \<open>Errors inside a scan\<close>







section \<open>The loop over the opportunities\<close>

text \<open>The loop attempts a prefix of its list; what it executes keeps the order of the list.\<close>

lemma estProfitUsd_planOf: "estProfitUsd (planOf opp) = estProfitUsd opp"
  by (simp add: planOf_def)

lemma nonIncreasingProfit_take: "nonIncreasingProfit xs \<Longrightarrow> nonIncreasingProfit (take k xs)"
  unfolding nonIncreasingProfit_def
  by (metis append_take_drop_id sorted_wrt_append)

lemma nonIncreasingProfit_sortByProfit: "nonIncreasingProfit (sortByProfit found)"
proof -
  have "sorted (map (\<lambda>x. - estProfitUsd x) (sortByProfit found))"
    by (simp add: sortByProfit_def)
  then show ?thesis
    by (simp add: nonIncreasingProfit_def sorted_map sorted_wrt_iff_nth_less)
qed

lemma processOpportunities_stops:
  "maxConcurrentTrades cfg \<le> activeTrades s \<Longrightarrow>
     processOpportunities c cfg now opps s = (Inr (), s)"
  by (cases opps) (simp_all add: done_with_def)

lemma processOpportunities_Cons:
  "activeTrades s < maxConcurrentTrades cfg \<Longrightarrow>
     processOpportunities c cfg now (opp # rest) s =
       andThen (handleOpportunity c opp now) (\<lambda>_. processOpportunities c cfg now rest) s"
  by simp

lemma processOpportunities_summary:
  "nonIncreasingProfit opps \<Longrightarrow>
   \<exists>w evs a k. snd (processOpportunities c cfg now opps s) =
       s\<lparr>activeTrades := a, world := w, trace := trace s @ evs\<rparr> \<and>
     attempted evs = take k opps \<and>
     nonIncreasingProfit (executed evs) \<and> set (executed evs) \<subseteq> planOf ` set opps \<and>
     list_all statusFollowsAction (appended evs)"
proof (induction opps arbitrary: s)
  case Nil
  show ?case
    by (intro exI [of _ "world s"] exI [of _ "[]"] exI [of _ "activeTrades s"] exI [of _ 0])
       (simp add: done_with_def nonIncreasingProfit_def)
next
  case (Cons opp rest)
  show ?case
  proof (cases "maxConcurrentTrades cfg \<le> activeTrades s")
    case True
    then have "snd (processOpportunities c cfg now (opp # rest) s) = s"
      by (simp add: processOpportunities_stops)
    then show ?thesis
      by (intro exI [of _ "world s"] exI [of _ "[]"] exI [of _ "activeTrades s"] exI [of _ 0])
         (simp add: nonIncreasingProfit_def)
  next
    case False
    then have unfold: "processOpportunities c cfg now (opp # rest) s =
        andThen (handleOpportunity c opp now) (\<lambda>_. processOpportunities c cfg now rest) s"
      by simp
    obtain r s1 where h: "handleOpportunity c opp now s = (r, s1)"
      by (cases "handleOpportunity c opp now s")
    from handleOpportunity_summary [of c opp now s] h obtain w1 evs1 a1
      where s1: "s1 = s\<lparr>activeTrades := a1, world := w1, trace := trace s @ evs1\<rparr>"
        and at1: "attempted evs1 = [opp]"
        and ex1: "executed evs1 = [] \<or> executed evs1 = [planOf opp]"
        and rows1: "list_all statusFollowsAction (appended evs1)"
      by auto
    from ex1 have sorted1: "nonIncreasingProfit (executed evs1)"
      by (auto simp add: nonIncreasingProfit_def)
    from ex1 have sub1: "set (executed evs1) \<subseteq> planOf ` set (opp # rest)"
      by auto
    show ?thesis
    proof (cases r)
      case (Inl e)
      with unfold h have "snd (processOpportunities c cfg now (opp # rest) s) = s1"
        by (simp add: andThen_Inl)
      with s1 at1 sorted1 sub1 rows1 show ?thesis
        by (intro exI [of _ w1] exI [of _ evs1] exI [of _ a1] exI [of _ 1]) simp
    next
      case (Inr u)
      with unfold h have eq: "processOpportunities c cfg now (opp # rest) s =
          processOpportunities c cfg now rest s1"
        by (simp add: andThen_Inr)
      from Cons.prems have rest_sorted: "nonIncreasingProfit rest"
        and below: "\<forall>x\<in>set rest. estProfitUsd x \<le> estProfitUsd opp"
        by (simp_all add: nonIncreasingProfit_def)
      from Cons.IH [OF rest_sorted, of s1] obtain w2 evs2 a2 k2
        where s2: "snd (processOpportunities c cfg now rest s1) =
            s1\<lparr>activeTrades := a2, world := w2, trace := trace s1 @ evs2\<rparr>"
          and at2: "attempted evs2 = take k2 rest"
          and ex2: "nonIncreasingProfit (executed evs2)"
          and sub2: "set (executed evs2) \<subseteq> planOf ` set rest"
          and rows2: "list_all statusFollowsAction (appended evs2)"
        by blast
      from sub2 below have low: "\<forall>p\<in>set (executed evs2). estProfitUsd p \<le> estProfitUsd opp"
        by (auto simp add: estProfitUsd_planOf)
      from ex1 ex2 low have sorted12: "nonIncreasingProfit (executed evs1 @ executed evs2)"
        by (auto simp add: nonIncreasingProfit_def estProfitUsd_planOf)
      from sub1 sub2 have sub12: "set (executed evs1 @ executed evs2) \<subseteq> planOf ` set (opp # rest)"
        by auto
      from eq s1 s2 have "snd (processOpportunities c cfg now (opp # rest) s) =
          s\<lparr>activeTrades := a2, world := w2, trace := trace s @ (evs1 @ evs2)\<rparr>"
        by simp
      with at1 at2 sorted12 sub12 rows1 rows2 show ?thesis
        by (intro exI [of _ w2] exI [of _ "evs1 @ evs2"] exI [of _ a2] exI [of _ "Suc k2"])
           (simp add: reads_append)
    qed
  qed
qed

lemma quietStep_scanEffect: "quietStep s s' \<Longrightarrow> scanEffect s s'"
proof -
  assume "quietStep s s'"
  then obtain w evs where s': "s' = s\<lparr>world := w, trace := trace s @ evs\<rparr>"
    and b: "list_all bookkeeping evs"
    by (auto simp add: quietStep_def)
  from s' have "s' = s\<lparr>activeTrades := activeTrades s, world := w, trace := trace s @ evs\<rparr>"
    by simp
  with b show ?thesis
    unfolding scanEffect_def
    by (intro exI [of _ w] exI [of _ evs] exI [of _ "activeTrades s"])
       (simp add: bookkeeping_reads nonIncreasingProfit_def)
qed

lemma quietStep_then_scanEffect:
  assumes q: "quietStep s s1" and e: "scanEffect s1 s2"
  shows "scanEffect s s2"
proof -
  from q obtain w1 evs1 where s1: "s1 = s\<lparr>world := w1, trace := trace s @ evs1\<rparr>"
    and b: "list_all bookkeeping evs1"
    by (auto simp add: quietStep_def)
  from e obtain w2 evs2 a2
    where s2: "s2 = s1\<lparr>activeTrades := a2, world := w2, trace := trace s1 @ evs2\<rparr>"
      and at: "nonIncreasingProfit (attempted evs2)"
      and ex: "nonIncreasingProfit (executed evs2)"
      and rows: "list_all statusFollowsAction (appended evs2)"
    by (auto simp add: scanEffect_def)
  from s1 s2 have "s2 = s\<lparr>activeTrades := a2, world := w2, trace := trace s @ (evs1 @ evs2)\<rparr>"
    by simp
  with b at ex rows show ?thesis
    unfolding scanEffect_def
    by (intro exI [of _ w2] exI [of _ "evs1 @ evs2"] exI [of _ a2])
       (simp add: bookkeeping_reads reads_append)
qed

lemma scanEffect_then_quietStep:
  assumes e: "scanEffect s s1" and q: "quietStep s1 s2"
  shows "scanEffect s s2"
proof -
  from e obtain w1 evs1 a1
    where s1: "s1 = s\<lparr>activeTrades := a1, world := w1, trace := trace s @ evs1\<rparr>"
      and at: "nonIncreasingProfit (attempted evs1)"
      and ex: "nonIncreasingProfit (executed evs1)"
      and rows: "list_all statusFollowsAction (appended evs1)"
    by (auto simp add: scanEffect_def)
  from q obtain w2 evs2 where s2: "s2 = s1\<lparr>world := w2, trace := trace s1 @ evs2\<rparr>"
    and b: "list_all bookkeeping evs2"
    by (auto simp add: quietStep_def)
  from s1 s2 have "s2 = s\<lparr>activeTrades := a1, world := w2, trace := trace s @ (evs1 @ evs2)\<rparr>"
    by simp
  with b at ex rows show ?thesis
    unfolding scanEffect_def
    by (intro exI [of _ w2] exI [of _ "evs1 @ evs2"] exI [of _ a1])
       (simp add: bookkeeping_reads reads_append)
qed

lemma processOpportunities_scanEffect:
  "scanEffect s (snd (processOpportunities c cfg now (sortByProfit found) s))"
proof -
  from processOpportunities_summary [OF nonIncreasingProfit_sortByProfit, of c cfg now found s]
  obtain w evs a k
    where s': "snd (processOpportunities c cfg now (sortByProfit found) s) =
        s\<lparr>activeTrades := a, world := w, trace := trace s @ evs\<rparr>"
      and at: "attempted evs = take k (sortByProfit found)"
      and ex: "nonIncreasingProfit (executed evs)"
      and rows: "list_all statusFollowsAction (appended evs)"
    by blast
  from at have "nonIncreasingProfit (attempted evs)"
    by (simp add: nonIncreasingProfit_take nonIncreasingProfit_sortByProfit)
  with s' ex rows show ?thesis
    unfolding scanEffect_def by blast
qed

lemma quiet_prefix_scanEffect:
  assumes m: "quietly m" and k: "\<And>a s. scanEffect s (snd (k a s))"
  shows "scanEffect s (snd (andThen m k s))"
  by (rule andThen_rel [where Q = quietStep and R = scanEffect])
     (simp_all add: quietly_step [OF m] k quietStep_then_scanEffect quietStep_scanEffect)

lemma scanBody_scanEffect: "scanEffect s (snd (scanBody c cfg now s))"
  unfolding scanBody_def
  by (intro quiet_prefix_scanEffect quietly_invoke quietly_buildSnapshots quietly_logger
      processOpportunities_scanEffect) simp_all

lemma scanOnce_scanEffect: "scanEffect s (snd (scanOnce c cfg now s))"
  unfolding scanOnce_def
  by (rule tryCatch_rel [where Q = scanEffect and R = quietStep])
     (simp_all add: scanBody_scanEffect quietly_step [OF quietly_logger]
        scanEffect_then_quietStep)

lemma scanEffect_newEvents:
  "scanEffect s s' \<Longrightarrow>
     nonIncreasingProfit (attempted (newEvents s s')) \<and>
     nonIncreasingProfit (executed (newEvents s s')) \<and>
     list_all statusFollowsAction (appended (newEvents s s')) \<and> running s' = running s"
  by (auto simp add: scanEffect_def newEvents_def)

section \<open>The counter of active trades\<close>

text \<open>Claim C1. The claim asks for \<open>activeTrades = 0\<close> after every \<open>scanOnce\<close>,
  whatever the executor does. With an executor whose \<open>execute\<close> throws, a fresh engine
  (counter 0) returns from \<open>scanOnce\<close> with the counter at 1: the increment before
  \<open>execute\<close> has run, the decrement after it has not, and nothing writes the counter
  again. Under a cap of 1 the next scan, with an executor that works, attempts nothing.\<close>

theorem scanOnce_leaks_activeTrades_when_execute_throws:
  "fst (executor_execute throwingExecutor (planOf (opportunityOn market1 10)) exampleNow ()) =
     Inl (OtherError ''execution reverted'') \<and>
   activeTrades (newEngine ()) = 0 \<and>
   fst (scanOnce throwingExecutor exampleConfig exampleNow (newEngine ())) = Inr () \<and>
   activeTrades (snd (scanOnce throwingExecutor exampleConfig exampleNow (newEngine ()))) = 1 \<and>
   activeTradesWritten
     (trace (snd (scanOnce throwingExecutor exampleConfig exampleNow (newEngine ())))) = [1] \<and>
   attempted
     (newEvents
        (snd (scanOnce throwingExecutor (exampleConfig\<lparr>maxConcurrentTrades := 1\<rparr>) exampleNow
           (newEngine ())))
        (snd (scanOnce exampleCollaborators (exampleConfig\<lparr>maxConcurrentTrades := 1\<rparr>)
           (exampleNow + 1000)
           (snd (scanOnce throwingExecutor (exampleConfig\<lparr>maxConcurrentTrades := 1\<rparr>)
              exampleNow (newEngine ())))))) = []"
  by (simp add: engine_defs example_defs newEvents_def)

lemma quietStep_withinCap: "quietStep s s' \<Longrightarrow> withinCap cfg s \<Longrightarrow> withinCap cfg s'"
  by (auto simp add: quietStep_def withinCap_def bookkeeping_reads reads_append)

lemma handleOpportunity_withinCap:
  assumes below: "activeTrades s < maxConcurrentTrades cfg" and inv: "withinCap cfg s"
  shows "withinCap cfg (snd (handleOpportunity c opp now s))"
proof -
  from handleOpportunity_summary [of c opp now s] obtain w evs a
    where s': "snd (handleOpportunity c opp now s) =
        s\<lparr>activeTrades := a, world := w, trace := trace s @ evs\<rparr>"
      and wr: "activeTradesWritten evs = [] \<and> a = activeTrades s \<or>
               activeTradesWritten evs = [activeTrades s + 1] \<and> a = activeTrades s + 1 \<or>
               activeTradesWritten evs = [activeTrades s + 1, activeTrades s] \<and> a = activeTrades s"
    by blast
  from wr below have "a \<le> maxConcurrentTrades cfg \<and>
      list_all (\<lambda>n. n \<le> maxConcurrentTrades cfg) (activeTradesWritten evs)"
    by auto
  with s' inv show ?thesis
    by (simp add: withinCap_def reads_append)
qed

lemma processOpportunities_withinCap:
  "withinCap cfg s \<Longrightarrow> withinCap cfg (snd (processOpportunities c cfg now opps s))"
proof (induction opps arbitrary: s)
  case Nil
  then show ?case by (simp add: done_with_def)
next
  case (Cons opp rest)
  show ?case
  proof (cases "maxConcurrentTrades cfg \<le> activeTrades s")
    case True
    with Cons.prems show ?thesis by (simp add: processOpportunities_stops)
  next
    case False
    then have below: "activeTrades s < maxConcurrentTrades cfg" by simp
    have "(withinCap cfg s \<and> activeTrades s < maxConcurrentTrades cfg \<longrightarrow>
           withinCap cfg (snd (andThen (handleOpportunity c opp now)
             (\<lambda>_. processOpportunities c cfg now rest) s)))"
      by (rule andThen_rel
          [where Q = "\<lambda>s s'. withinCap cfg s \<and> activeTrades s < maxConcurrentTrades cfg
                        \<longrightarrow> withinCap cfg s'"
             and R = "\<lambda>s s'. withinCap cfg s \<longrightarrow> withinCap cfg s'"])
         (simp_all add: handleOpportunity_withinCap Cons.IH)
    with below Cons.prems show ?thesis
      by (simp add: processOpportunities_Cons)
  qed
qed

lemma quietly_withinCap: "quietly m \<Longrightarrow> withinCap cfg s \<longrightarrow> withinCap cfg (snd (m s))"
  using quietStep_withinCap quietly_step by blast

lemma andThen_withinCap:
  assumes "\<And>s. withinCap cfg s \<longrightarrow> withinCap cfg (snd (m s))"
    and "\<And>a s. withinCap cfg s \<longrightarrow> withinCap cfg (snd (k a s))"
  shows "withinCap cfg s \<longrightarrow> withinCap cfg (snd (andThen m k s))"
  by (rule andThen_rel
      [where Q = "\<lambda>s s'. withinCap cfg s \<longrightarrow> withinCap cfg s'"
         and R = "\<lambda>s s'. withinCap cfg s \<longrightarrow> withinCap cfg s'"])
     (simp_all add: assms)

lemma processOpportunities_keeps_withinCap:
  "withinCap cfg s \<longrightarrow> withinCap cfg (snd (processOpportunities c cfg now opps s))"
  by (simp add: processOpportunities_withinCap)

lemma scanBody_withinCap: "withinCap cfg s \<longrightarrow> withinCap cfg (snd (scanBody c cfg now s))"
  unfolding scanBody_def
  by (intro andThen_withinCap processOpportunities_keeps_withinCap quietly_withinCap
      quietly_invoke quietly_buildSnapshots quietly_logger) simp_all

lemma scanOnce_withinCap: "withinCap cfg s \<Longrightarrow> withinCap cfg (snd (scanOnce c cfg now s))"
proof -
  have "withinCap cfg s \<longrightarrow> withinCap cfg (snd (scanOnce c cfg now s))"
    unfolding scanOnce_def
    by (rule tryCatch_rel
        [where Q = "\<lambda>s s'. withinCap cfg s \<longrightarrow> withinCap cfg s'"
           and R = "\<lambda>s s'. withinCap cfg s \<longrightarrow> withinCap cfg s'"])
       (simp_all add: scanBody_withinCap quietly_withinCap quietly_logger)
  then show "withinCap cfg s \<Longrightarrow> withinCap cfg (snd (scanOnce c cfg now s))" by simp
qed

lemma stop_withinCap: "withinCap cfg s \<Longrightarrow> withinCap cfg (stop s)"
  by (simp add: withinCap_def stop_def)

lemma startLoop_withinCap:
  "withinCap cfg s \<Longrightarrow> withinCap cfg (startLoop c cfg iterations s)"
proof (induction iterations arbitrary: s)
  case Nil
  then show ?case by simp
next
  case (Cons iteration rest)
  from Cons.prems have 1: "withinCap cfg (snd (scanOnce c cfg (fst iteration) s))"
    by (rule scanOnce_withinCap)
  then have 2: "withinCap cfg (stop (snd (scanOnce c cfg (fst iteration) s)))"
    by (rule stop_withinCap)
  from 1 2 Cons.IH Cons.prems show ?case
    by (simp add: Let_def)
qed

lemma start_withinCap: "withinCap cfg s \<Longrightarrow> withinCap cfg (start c cfg iterations s)"
proof -
  assume inv: "withinCap cfg s"
  then have "withinCap cfg (snd (logger Info EngineStarted (s\<lparr>running := True\<rparr>)))"
    by (simp add: withinCap_def logger_def emit_def reads_append)
  with inv show ?thesis
    by (simp add: start_def startLoop_withinCap)
qed

lemma newEngine_withinCap: "0 \<le> maxConcurrentTrades cfg \<Longrightarrow> withinCap cfg (newEngine w)"
  by (simp add: withinCap_def newEngine_def)

text \<open>Claim C2. If \<open>activeTrades\<close> is within the cap now and was at every write so
  far, it is so after \<open>scanOnce\<close>, whatever the collaborators do; an engine started
  fresh under a cap that is not negative stays within it through every iteration of its
  loop; and the loop over the opportunities, entered with the counter at the cap, handles
  none of them and leaves the engine as it is: the engine has no field in which an
  opportunity could wait for the next cycle.\<close>

theorem activeTrades_within_cap:
  "(withinCap cfg s \<longrightarrow> withinCap cfg (snd (scanOnce c cfg now s))) \<and>
   (0 \<le> maxConcurrentTrades cfg \<longrightarrow> withinCap cfg (start c cfg iterations (newEngine w))) \<and>
   (maxConcurrentTrades cfg \<le> activeTrades s \<longrightarrow>
      processOpportunities c cfg now opportunities s = (Inr (), s))"
  by (simp add: scanOnce_withinCap start_withinCap newEngine_withinCap
      processOpportunities_stops)

text \<open>With a cap of 1 and two allowed opportunities the counter goes 1, 0, 1, 0 and
  never reaches 2; with a cap of 0 nothing is handled.\<close>

theorem activeTrades_within_cap_witness:
  "withinCap (exampleConfig\<lparr>maxConcurrentTrades := 1\<rparr>) (newEngine ()) \<and>
   withinCap (exampleConfig\<lparr>maxConcurrentTrades := 1\<rparr>)
     (snd (scanOnce exampleCollaborators (exampleConfig\<lparr>maxConcurrentTrades := 1\<rparr>) exampleNow
        (newEngine ()))) \<and>
   activeTradesWritten
     (trace (snd (scanOnce exampleCollaborators (exampleConfig\<lparr>maxConcurrentTrades := 1\<rparr>)
        exampleNow (newEngine ())))) = [1, 0, 1, 0] \<and>
   withinCap (exampleConfig\<lparr>maxConcurrentTrades := 1\<rparr>)
     (start exampleCollaborators (exampleConfig\<lparr>maxConcurrentTrades := 1\<rparr>)
        [(exampleNow, False), (exampleNow + 1000, True)] (newEngine ())) \<and>
   processOpportunities exampleCollaborators (exampleConfig\<lparr>maxConcurrentTrades := 0\<rparr>)
       exampleNow [opportunityOn market1 10, opportunityOn market2 5] (newEngine ()) =
     (Inr (), newEngine ())"
  using activeTrades_within_cap
    [where cfg = "exampleConfig\<lparr>maxConcurrentTrades := 1\<rparr>" and s = "newEngine ()"
       and c = exampleCollaborators and now = exampleNow
       and iterations = "[(exampleNow, False), (exampleNow + 1000, True)]" and w = "()"
       and opportunities = "[]"]
    activeTrades_within_cap
    [where cfg = "exampleConfig\<lparr>maxConcurrentTrades := 0\<rparr>" and s = "newEngine ()"
       and c = exampleCollaborators and now = exampleNow
       and iterations = "[]" and w = "()"
       and opportunities = "[opportunityOn market1 10, opportunityOn market2 5]"]
  by (simp add: engine_defs example_defs withinCap_def)

section \<open>The order of the attempts\<close>



section \<open>Rejected opportunities\<close>

lemma logDecision_eq:
  "logDecision c opp act why now planned txHash s =
     (case decisionLogger c of
        None \<Rightarrow> (Inr (), s)
      | Some appendRow \<Rightarrow>
          if validTime now then
            (fst (appendRow
                    (decisionRow opp now act why planned txHash
                       (if act = ''trade'' then ''submitted'' else ''skipped'')) (world s)),
             s\<lparr>world := snd (appendRow
                    (decisionRow opp now act why planned txHash
                       (if act = ''trade'' then ''submitted'' else ''skipped'')) (world s)),
               trace := trace s @
                 [Call_append (decisionRow opp now act why planned txHash
                    (if act = ''trade'' then ''submitted'' else ''skipped''))]\<rparr>)
          else (Inl (RangeError ''Invalid time value''), s))"
  by (simp add: logDecision_def andThen_def done_with_def toISOString_def invoke_def
      decisionRow_def Let_def split: option.splits prod.splits)

lemma logDecision_newEvents:
  "newEvents s (snd (logDecision c opp act why now planned txHash s)) =
     (if decisionLogger c \<noteq> None \<and> validTime now
      then [Call_append (decisionRow opp now act why planned txHash
                           (if act = ''trade'' then ''submitted'' else ''skipped''))]
      else [])"
  by (simp add: logDecision_eq newEvents_def split: option.splits)

lemma logDecision_fields:
  "activeTrades (snd (logDecision c opp act why now planned txHash s)) = activeTrades s \<and>
   running (snd (logDecision c opp act why now planned txHash s)) = running s"
  by (simp add: logDecision_eq split: option.splits)

lemma handleOpportunity_rejected:
  assumes "riskManager_canExecute c opp now (world s) = (Inr decision, w1)"
    and "\<not> allowed decision"
  shows "handleOpportunity c opp now s =
     logDecision c opp ''skip'' (orElse (decision_reason decision) ''filtered'') now None None
       (s\<lparr>world := w1,
          trace := trace s @
            [Call_canExecute opp,
             Log Info (SkipLine (marketId opp) (orElse (decision_reason decision) ''filtered'')
                         (edgeBps opp) (estProfitUsd opp) (sizeUsd opp))]\<rparr>)"
  using assms by (simp add: handleOpportunity_def andThen_def invoke_def logger_def emit_def)

lemma handleOpportunity_low_gas:
  assumes "riskManager_canExecute c opp now (world s) = (Inr decision, w1)"
    and "allowed decision"
    and "riskManager_ensureGasBalance c now w1 = (Inr gasCheck, w2)"
    and "\<not> ok gasCheck"
  shows "handleOpportunity c opp now s =
     logDecision c opp ''skip'' ''low_gas'' now None None
       (s\<lparr>world := w2,
          trace := trace s @
            [Call_canExecute opp, Call_ensureGasBalance,
             Log Warn (SkipLine (marketId opp) ''low_gas''
                         (edgeBps opp) (estProfitUsd opp) (sizeUsd opp))]\<rparr>)"
  using assms by (simp add: handleOpportunity_def andThen_def invoke_def logger_def emit_def)

lemma logDecision_newEvents_after:
  "trace s1 = trace s @ pre \<Longrightarrow> st = (if act = ''trade'' then ''submitted'' else ''skipped'') \<Longrightarrow>
     newEvents s (snd (logDecision c opp act why now planned txHash s1)) =
       pre @ (if decisionLogger c \<noteq> None \<and> validTime now
              then [Call_append (decisionRow opp now act why planned txHash st)]
              else [])"
  by (simp add: logDecision_eq newEvents_def split: option.splits)

text \<open>Claim C7. When \<open>canExecute\<close> returns not allowed, or returns allowed and
  \<open>ensureGasBalance\<close> returns not ok, \<open>handleOpportunity\<close> leaves
  \<open>activeTrades\<close> and \<open>running\<close> as they are and calls neither
  \<open>onTradeSubmitted\<close> nor the executor: its only effects are the calls of the risk
  manager, the skip line and, on an engine with a decision logger, the appending of one
  skip row, whose reason is the risk manager's (\<open>filtered\<close> when it gives none or an
  empty one), respectively \<open>low_gas\<close>. The statement gives the effects on every
  engine: the decision logger is an optional part, and \<open>logDecision\<close> does nothing
  without one or before it could render \<open>now\<close> as a date.\<close>

theorem rejected_opportunity_keeps_counters:
  "(riskManager_canExecute c opp now (world s) = (Inr decision, w1) \<and> \<not> allowed decision \<longrightarrow>
      activeTrades (snd (handleOpportunity c opp now s)) = activeTrades s \<and>
      running (snd (handleOpportunity c opp now s)) = running s \<and>
      newEvents s (snd (handleOpportunity c opp now s)) =
        [Call_canExecute opp,
         Log Info (SkipLine (marketId opp) (orElse (decision_reason decision) ''filtered'')
                     (edgeBps opp) (estProfitUsd opp) (sizeUsd opp))] @
        (if decisionLogger c \<noteq> None \<and> validTime now
         then [Call_append
                 (decisionRow opp now ''skip''
                    (orElse (decision_reason decision) ''filtered'') None None ''skipped'')]
         else []) \<and>
      fst (handleOpportunity c opp now s) =
        (case decisionLogger c of
           None \<Rightarrow> Inr ()
         | Some appendRow \<Rightarrow>
             if validTime now
             then fst (appendRow
                         (decisionRow opp now ''skip''
                            (orElse (decision_reason decision) ''filtered'') None None
                            ''skipped'') w1)
             else Inl (RangeError ''Invalid time value''))) \<and>
   (riskManager_canExecute c opp now (world s) = (Inr decision, w1) \<and> allowed decision \<and>
    riskManager_ensureGasBalance c now w1 = (Inr gasCheck, w2) \<and> \<not> ok gasCheck \<longrightarrow>
      activeTrades (snd (handleOpportunity c opp now s)) = activeTrades s \<and>
      running (snd (handleOpportunity c opp now s)) = running s \<and>
      newEvents s (snd (handleOpportunity c opp now s)) =
        [Call_canExecute opp, Call_ensureGasBalance,
         Log Warn (SkipLine (marketId opp) ''low_gas''
                     (edgeBps opp) (estProfitUsd opp) (sizeUsd opp))] @
        (if decisionLogger c \<noteq> None \<and> validTime now
         then [Call_append (decisionRow opp now ''skip'' ''low_gas'' None None ''skipped'')]
         else []) \<and>
      fst (handleOpportunity c opp now s) =
        (case decisionLogger c of
           None \<Rightarrow> Inr ()
         | Some appendRow \<Rightarrow>
             if validTime now
             then fst (appendRow
                         (decisionRow opp now ''skip'' ''low_gas'' None None ''skipped'') w2)
             else Inl (RangeError ''Invalid time value'')))"
proof (intro conjI impI)
  assume a: "riskManager_canExecute c opp now (world s) = (Inr decision, w1) \<and> \<not> allowed decision"
  then have eq: "handleOpportunity c opp now s =
     logDecision c opp ''skip'' (orElse (decision_reason decision) ''filtered'') now None None
       (s\<lparr>world := w1,
          trace := trace s @
            [Call_canExecute opp,
             Log Info (SkipLine (marketId opp) (orElse (decision_reason decision) ''filtered'')
                         (edgeBps opp) (estProfitUsd opp) (sizeUsd opp))]\<rparr>)"
    by (simp add: handleOpportunity_rejected)
  show "activeTrades (snd (handleOpportunity c opp now s)) = activeTrades s"
    by (simp add: eq logDecision_fields)
  show "running (snd (handleOpportunity c opp now s)) = running s"
    by (simp add: eq logDecision_fields)
  show "newEvents s (snd (handleOpportunity c opp now s)) =
        [Call_canExecute opp,
         Log Info (SkipLine (marketId opp) (orElse (decision_reason decision) ''filtered'')
                     (edgeBps opp) (estProfitUsd opp) (sizeUsd opp))] @
        (if decisionLogger c \<noteq> None \<and> validTime now
         then [Call_append
                 (decisionRow opp now ''skip''
                    (orElse (decision_reason decision) ''filtered'') None None ''skipped'')]
         else [])"
    unfolding eq by (rule logDecision_newEvents_after) simp_all
  show "fst (handleOpportunity c opp now s) =
        (case decisionLogger c of
           None \<Rightarrow> Inr ()
         | Some appendRow \<Rightarrow>
             if validTime now
             then fst (appendRow
                         (decisionRow opp now ''skip''
                            (orElse (decision_reason decision) ''filtered'') None None
                            ''skipped'') w1)
             else Inl (RangeError ''Invalid time value''))"
    by (simp add: eq logDecision_eq split: option.splits)
next
  assume a: "riskManager_canExecute c opp now (world s) = (Inr decision, w1) \<and> allowed decision \<and>
    riskManager_ensureGasBalance c now w1 = (Inr gasCheck, w2) \<and> \<not> ok gasCheck"
  then have eq: "handleOpportunity c opp now s =
     logDecision c opp ''skip'' ''low_gas'' now None None
       (s\<lparr>world := w2,
          trace := trace s @
            [Call_canExecute opp, Call_ensureGasBalance,
             Log Warn (SkipLine (marketId opp) ''low_gas''
                         (edgeBps opp) (estProfitUsd opp) (sizeUsd opp))]\<rparr>)"
    by (simp add: handleOpportunity_low_gas)
  show "activeTrades (snd (handleOpportunity c opp now s)) = activeTrades s"
    by (simp add: eq logDecision_fields)
  show "running (snd (handleOpportunity c opp now s)) = running s"
    by (simp add: eq logDecision_fields)
  show "newEvents s (snd (handleOpportunity c opp now s)) =
        [Call_canExecute opp, Call_ensureGasBalance,
         Log Warn (SkipLine (marketId opp) ''low_gas''
                     (edgeBps opp) (estProfitUsd opp) (sizeUsd opp))] @
        (if decisionLogger c \<noteq> None \<and> validTime now
         then [Call_append (decisionRow opp now ''skip'' ''low_gas'' None None ''skipped'')]
         else [])"
    unfolding eq by (rule logDecision_newEvents_after) simp_all
  show "fst (handleOpportunity c opp now s) =
        (case decisionLogger c of
           None \<Rightarrow> Inr ()
         | Some appendRow \<Rightarrow>
             if validTime now
             then fst (appendRow
                         (decisionRow opp now ''skip'' ''low_gas'' None None ''skipped'') w2)
             else Inl (RangeError ''Invalid time value''))"
    by (simp add: eq logDecision_eq split: option.splits)
qed

text \<open>With a decision logger: the rejection with EXPOSURE_LIMIT and the low gas
  balance each append their skip row and leave the counter at 0.\<close>

theorem rejected_opportunity_keeps_counters_witness:
  "handleOpportunity rejectingRiskManager (opportunityOn market1 10) exampleNow (newEngine ()) =
     (Inr (),
      \<lparr>running = False, activeTrades = 0, world = (),
        trace = [Call_canExecute (opportunityOn market1 10),
                 Log Info (SkipLine ''M1'' ''EXPOSURE_LIMIT'' 1000 10 100),
                 Call_append
                   (decisionRow (opportunityOn market1 10) exampleNow ''skip''
                      ''EXPOSURE_LIMIT'' None None ''skipped'')]\<rparr>) \<and>
   handleOpportunity lowGasRiskManager (opportunityOn market1 10) exampleNow (newEngine ()) =
     (Inr (),
      \<lparr>running = False, activeTrades = 0, world = (),
        trace = [Call_canExecute (opportunityOn market1 10), Call_ensureGasBalance,
                 Log Warn (SkipLine ''M1'' ''low_gas'' 1000 10 100),
                 Call_append
                   (decisionRow (opportunityOn market1 10) exampleNow ''skip'' ''low_gas''
                      None None ''skipped'')]\<rparr>)"
  using rejected_opportunity_keeps_counters
    [where c = rejectingRiskManager and opp = "opportunityOn market1 10" and now = exampleNow
       and s = "newEngine ()"
       and decision = "\<lparr>allowed = False, decision_reason = Some ''EXPOSURE_LIMIT''\<rparr>"
       and ?w1.0 = "()" and gasCheck = "\<lparr>ok = False\<rparr>" and ?w2.0 = "()"]
    rejected_opportunity_keeps_counters
    [where c = lowGasRiskManager and opp = "opportunityOn market1 10" and now = exampleNow
       and s = "newEngine ()"
       and decision = "\<lparr>allowed = True, decision_reason = None\<rparr>"
       and ?w1.0 = "()" and gasCheck = "\<lparr>ok = False\<rparr>" and ?w2.0 = "()"]
  by (simp add: engine_defs example_defs decisionRow_def)

section \<open>Settling an execution result\<close>

lemma handleOpportunity_reaches_settle:
  assumes "riskManager_canExecute c opp now (world s) = (Inr decision, w1)"
    and "allowed decision"
    and "riskManager_ensureGasBalance c now w1 = (Inr gasCheck, w2)"
    and "ok gasCheck"
    and "riskManager_onTradeSubmitted c opp now w2 = (Inr (), w3)"
    and "executor_execute c (planOf opp) now w3 = (Inr result, w4)"
  shows "handleOpportunity c opp now s =
     settle c opp now result
       (s\<lparr>world := w4,
          trace := trace s @
            [Call_canExecute opp, Call_ensureGasBalance, ActiveTradesSet (activeTrades s + 1),
             Call_onTradeSubmitted opp, Call_execute (planOf opp),
             ActiveTradesSet (activeTrades s)]\<rparr>)"
  using assms
  by (simp add: handleOpportunity_def submit_def andThen_def invoke_def addActiveTrades_def)

lemma invoke_then_logDecision_newEvents:
  "newEvents s (snd (andThen (invoke e f)
      (\<lambda>_. logDecision c opp act why now planned txHash) s)) =
     e # (if (\<exists>u. fst (f (world s)) = Inr u) \<and> decisionLogger c \<noteq> None \<and> validTime now
          then [Call_append (decisionRow opp now act why planned txHash
                               (if act = ''trade'' then ''submitted'' else ''skipped''))]
          else [])"
proof (cases "f (world s)")
  case (Pair r w)
  show ?thesis
  proof (cases r)
    case (Inl err)
    with Pair show ?thesis
      by (simp add: andThen_def invoke_def newEvents_def)
  next
    case (Inr u)
    with Pair have eq: "andThen (invoke e f) (\<lambda>_. logDecision c opp act why now planned txHash) s =
        logDecision c opp act why now planned txHash (s\<lparr>world := w, trace := trace s @ [e]\<rparr>)"
      by (simp add: andThen_def invoke_def)
    have "newEvents s (snd (logDecision c opp act why now planned txHash
              (s\<lparr>world := w, trace := trace s @ [e]\<rparr>))) =
        [e] @ (if decisionLogger c \<noteq> None \<and> validTime now
               then [Call_append (decisionRow opp now act why planned txHash
                                    (if act = ''trade'' then ''submitted'' else ''skipped''))]
               else [])"
      by (rule logDecision_newEvents_after) simp_all
    with eq Pair Inr show ?thesis by simp
  qed
qed

lemma invoke_then_logDecision_fields:
  "activeTrades (snd (andThen (invoke e f)
      (\<lambda>_. logDecision c opp act why now planned txHash) s)) = activeTrades s \<and>
   running (snd (andThen (invoke e f)
      (\<lambda>_. logDecision c opp act why now planned txHash) s)) = running s"
  by (simp add: andThen_def invoke_def logDecision_fields split: prod.splits sum.splits)

lemma settle_newEvents:
  "newEvents s (snd (settle c opp now result s)) =
     (if result_status result = ''submitted'' \<or> result_status result = ''dry_run'' then
        Call_onTradeSuccess opp #
        (if fst (riskManager_onTradeSuccess c opp now (world s)) = Inr () \<and>
            decisionLogger c \<noteq> None \<and> validTime now
         then [Call_append
                 (decisionRow opp now ''trade'' (result_status result) (Some (sizeUsd opp))
                    (firstTxHash (txHashes result)) ''submitted'')]
         else [])
      else
        Call_onTradeFailure opp (orElse (result_reason result) (result_status result)) #
        (if fst (riskManager_onTradeFailure c opp now
                   (orElse (result_reason result) (result_status result)) (world s)) = Inr () \<and>
            decisionLogger c \<noteq> None \<and> validTime now
         then [Call_append
                 (decisionRow opp now ''skip''
                    (orElse (result_reason result) (result_status result)) None None ''skipped'')]
         else []))"
  by (auto simp add: settle_def invoke_then_logDecision_newEvents planOf_def)

text \<open>Claim C8. When the executor returns a result, \<open>handleOpportunity\<close> continues
  with the branch on its status, the counter being back at its value. If the status is
  \<open>submitted\<close> or \<open>dry_run\<close>, \<open>onTradeSuccess\<close> is called and then, on an engine
  with a decision logger, a trade row is appended with the planned size and the first
  transaction hash, if any. For any other status \<open>onTradeFailure\<close> is called with the
  result's reason (its status when the reason is missing or empty) and then a skip row
  with that reason is appended. Nothing else happens, and the counter is not touched. The
  statement gives the effects on every engine: the row is appended once the callback of
  the risk manager has returned, a decision logger being there and \<open>now\<close> being a
  date that can be rendered.\<close>

theorem settle_follows_result_status:
  "(riskManager_canExecute c opp now (world s) = (Inr decision, w1) \<and> allowed decision \<and>
    riskManager_ensureGasBalance c now w1 = (Inr gasCheck, w2) \<and> ok gasCheck \<and>
    riskManager_onTradeSubmitted c opp now w2 = (Inr (), w3) \<and>
    executor_execute c (planOf opp) now w3 = (Inr result, w4) \<longrightarrow>
      handleOpportunity c opp now s =
        settle c opp now result
          (s\<lparr>world := w4,
             trace := trace s @
               [Call_canExecute opp, Call_ensureGasBalance, ActiveTradesSet (activeTrades s + 1),
                Call_onTradeSubmitted opp, Call_execute (planOf opp),
                ActiveTradesSet (activeTrades s)]\<rparr>)) \<and>
   activeTrades (snd (settle c opp now result s)) = activeTrades s \<and>
   newEvents s (snd (settle c opp now result s)) =
     (if result_status result = ''submitted'' \<or> result_status result = ''dry_run'' then
        Call_onTradeSuccess opp #
        (if fst (riskManager_onTradeSuccess c opp now (world s)) = Inr () \<and>
            decisionLogger c \<noteq> None \<and> validTime now
         then [Call_append
                 (decisionRow opp now ''trade'' (result_status result) (Some (sizeUsd opp))
                    (firstTxHash (txHashes result)) ''submitted'')]
         else [])
      else
        Call_onTradeFailure opp (orElse (result_reason result) (result_status result)) #
        (if fst (riskManager_onTradeFailure c opp now
                   (orElse (result_reason result) (result_status result)) (world s)) = Inr () \<and>
            decisionLogger c \<noteq> None \<and> validTime now
         then [Call_append
                 (decisionRow opp now ''skip''
                    (orElse (result_reason result) (result_status result)) None None ''skipped'')]
         else []))"
proof (intro conjI impI)
  assume "riskManager_canExecute c opp now (world s) = (Inr decision, w1) \<and> allowed decision \<and>
    riskManager_ensureGasBalance c now w1 = (Inr gasCheck, w2) \<and> ok gasCheck \<and>
    riskManager_onTradeSubmitted c opp now w2 = (Inr (), w3) \<and>
    executor_execute c (planOf opp) now w3 = (Inr result, w4)"
  then show "handleOpportunity c opp now s =
        settle c opp now result
          (s\<lparr>world := w4,
             trace := trace s @
               [Call_canExecute opp, Call_ensureGasBalance, ActiveTradesSet (activeTrades s + 1),
                Call_onTradeSubmitted opp, Call_execute (planOf opp),
                ActiveTradesSet (activeTrades s)]\<rparr>)"
    by (simp add: handleOpportunity_reaches_settle)
next
  show "activeTrades (snd (settle c opp now result s)) = activeTrades s"
    by (simp add: settle_def invoke_then_logDecision_fields)
next
  show "newEvents s (snd (settle c opp now result s)) =
     (if result_status result = ''submitted'' \<or> result_status result = ''dry_run'' then
        Call_onTradeSuccess opp #
        (if fst (riskManager_onTradeSuccess c opp now (world s)) = Inr () \<and>
            decisionLogger c \<noteq> None \<and> validTime now
         then [Call_append
                 (decisionRow opp now ''trade'' (result_status result) (Some (sizeUsd opp))
                    (firstTxHash (txHashes result)) ''submitted'')]
         else [])
      else
        Call_onTradeFailure opp (orElse (result_reason result) (result_status result)) #
        (if fst (riskManager_onTradeFailure c opp now
                   (orElse (result_reason result) (result_status result)) (world s)) = Inr () \<and>
            decisionLogger c \<noteq> None \<and> validTime now
         then [Call_append
                 (decisionRow opp now ''skip''
                    (orElse (result_reason result) (result_status result)) None None ''skipped'')]
         else []))"
    by (rule settle_newEvents)
qed

text \<open>A submitted order with a transaction hash, and an order the executor reports as
  failed.\<close>

theorem settle_follows_result_status_witness:
  "newEvents (newEngine ())
     (snd (settle exampleCollaborators (opportunityOn market1 10) exampleNow
        \<lparr>result_status = ''submitted'', result_reason = None, txHashes = Some [''0xabc'']\<rparr>
        (newEngine ()))) =
     [Call_onTradeSuccess (opportunityOn market1 10),
      Call_append (decisionRow (opportunityOn market1 10) exampleNow ''trade'' ''submitted''
         (Some 100) (Some ''0xabc'') ''submitted'')] \<and>
   newEvents (newEngine ())
     (snd (settle failingExecutor (opportunityOn market1 10) exampleNow
        \<lparr>result_status = ''failed'', result_reason = Some ''insufficient liquidity'',
          txHashes = None\<rparr>
        (newEngine ()))) =
     [Call_onTradeFailure (opportunityOn market1 10) ''insufficient liquidity'',
      Call_append (decisionRow (opportunityOn market1 10) exampleNow ''skip''
         ''insufficient liquidity'' None None ''skipped'')] \<and>
   handleOpportunity failingExecutor (opportunityOn market1 10) exampleNow (newEngine ()) =
     settle failingExecutor (opportunityOn market1 10) exampleNow
        \<lparr>result_status = ''failed'', result_reason = Some ''insufficient liquidity'',
          txHashes = None\<rparr>
        (newEngine ()
           \<lparr>trace := [Call_canExecute (opportunityOn market1 10), Call_ensureGasBalance,
                       ActiveTradesSet 1, Call_onTradeSubmitted (opportunityOn market1 10),
                       Call_execute (planOf (opportunityOn market1 10)), ActiveTradesSet 0]\<rparr>)"
  using settle_follows_result_status
    [of exampleCollaborators "opportunityOn market1 10" exampleNow "newEngine ()"
        "\<lparr>allowed = True, decision_reason = None\<rparr>" "()" "\<lparr>ok = True\<rparr>" "()" "()"
        "\<lparr>result_status = ''submitted'', result_reason = None, txHashes = Some [''0xabc'']\<rparr>"
        "()"]
    settle_follows_result_status
    [of failingExecutor "opportunityOn market1 10" exampleNow "newEngine ()"
        "\<lparr>allowed = True, decision_reason = None\<rparr>" "()" "\<lparr>ok = True\<rparr>" "()" "()"
        "\<lparr>result_status = ''failed'', result_reason = Some ''insufficient liquidity'',
          txHashes = None\<rparr>"
        "()"]
  by (simp add: example_defs newEngine_def validTime_def decisionRow_def)

section \<open>The status of an audit row\<close>

text \<open>Claim C10. Every row appended during a scan has the status of its action: a
  trade row has status \<open>submitted\<close> and the result's status (\<open>submitted\<close> or
  \<open>dry_run\<close>) as its reason, a skip row has status \<open>skipped\<close>, and there is no other
  action. \<open>logDecision\<close> computes the status from the action alone, and after an
  execution the result's own status reaches the row through the reason only.\<close>

theorem status_follows_action:
  "list_all statusFollowsAction (appended (newEvents s (snd (scanOnce c cfg now s)))) \<and>
   list_all (\<lambda>row. action row = act \<and> reason row = why \<and>
               status row = (if act = ''trade'' then ''submitted'' else ''skipped''))
     (appended (newEvents s (snd (logDecision c opp act why now planned txHash s)))) \<and>
   list_all (\<lambda>row. if result_status result = ''submitted'' \<or> result_status result = ''dry_run''
                    then action row = ''trade'' \<and> status row = ''submitted'' \<and>
                         reason row = result_status result
                    else action row = ''skip'' \<and> status row = ''skipped'' \<and>
                         reason row = orElse (result_reason result) (result_status result))
     (appended (newEvents s (snd (settle c opp now result s))))"
proof (intro conjI)
  from scanEffect_newEvents [OF scanOnce_scanEffect, of s c cfg now]
  show "list_all statusFollowsAction (appended (newEvents s (snd (scanOnce c cfg now s))))"
    by simp
next
  show "list_all (\<lambda>row. action row = act \<and> reason row = why \<and>
               status row = (if act = ''trade'' then ''submitted'' else ''skipped''))
     (appended (newEvents s (snd (logDecision c opp act why now planned txHash s))))"
    by (simp add: logDecision_newEvents decisionRow_def)
next
  show "list_all (\<lambda>row. if result_status result = ''submitted'' \<or> result_status result = ''dry_run''
                    then action row = ''trade'' \<and> status row = ''submitted'' \<and>
                         reason row = result_status result
                    else action row = ''skip'' \<and> status row = ''skipped'' \<and>
                         reason row = orElse (result_reason result) (result_status result))
     (appended (newEvents s (snd (settle c opp now result s))))"
    by (simp add: settle_newEvents decisionRow_def)
qed

text \<open>With the executor in dry-run mode both rows are trade rows with status
  \<open>submitted\<close> and reason \<open>dry_run\<close>.\<close>

theorem status_follows_action_witness:
  "fst (executor_execute dryRunExecutor (planOf (opportunityOn market1 10)) exampleNow ()) =
     Inr \<lparr>result_status = ''dry_run'', result_reason = None, txHashes = None\<rparr> \<and>
   appended (newEvents (newEngine ())
      (snd (scanOnce dryRunExecutor exampleConfig exampleNow (newEngine ())))) =
     [decisionRow (opportunityOn market1 10) exampleNow ''trade'' ''dry_run'' (Some 100) None
        ''submitted'',
      decisionRow (opportunityOn market2 5) exampleNow ''trade'' ''dry_run'' (Some 100) None
        ''submitted'']"
  using status_follows_action
    [of "newEngine ()" dryRunExecutor exampleConfig exampleNow "''trade''" "''dry_run''"
        "opportunityOn market1 10" "Some 100" None
        "\<lparr>result_status = ''dry_run'', result_reason = None, txHashes = None\<rparr>"]
  by (simp add: engine_defs example_defs newEvents_def decisionRow_def)

section \<open>Permits of the limiter\<close>

text \<open>Every step of the limiter keeps the sum of the free permits and the fetches in flight.\<close>

lemma filter_update_count:
  "i < length xs \<Longrightarrow>
     length (filter P (xs[i := y])) + (if P (xs ! i) then 1 else 0) =
       length (filter P xs) + (if P y then 1 else 0)"
proof (induction xs arbitrary: i)
  case Nil
  then show ?case by simp
next
  case (Cons x xs)
  show ?case
  proof (cases i)
    case 0
    then show ?thesis by simp
  next
    case (Suc j)
    with Cons.prems have "j < length xs" by simp
    from Cons.IH [OF this] Suc show ?thesis by simp
  qed
qed

lemma limiterStep_keeps_permits:
  assumes step: "limiterStep a l = Some l'"
  shows "permits l' + inFlight l' = permits l + inFlight l"
proof (cases a)
  case With
  with step show ?thesis by (auto simp add: inFlight_def)
next
  case (Grant i)
  with step have i: "i < length (slots l)" and q: "slots l ! i = Queued" and p: "0 < permits l"
    and l': "l' = l\<lparr>permits := permits l - 1, slots := (slots l)[i := FetchingYes]\<rparr>"
    by (auto split: if_splits)
  from filter_update_count [OF i, of fetching FetchingYes] q l' p show ?thesis
    by (simp add: inFlight_def)
next
  case (YesReturned i)
  with step have i: "i < length (slots l)" and q: "slots l ! i = FetchingYes"
    and l': "l' = l\<lparr>slots := (slots l)[i := FetchingNo]\<rparr>"
    by (auto split: if_splits)
  from filter_update_count [OF i, of fetching FetchingNo] q l' show ?thesis
    by (simp add: inFlight_def)
next
  case (NoReturned i)
  with step have i: "i < length (slots l)" and q: "slots l ! i = FetchingNo"
    and l': "l' = l\<lparr>permits := permits l + 1, slots := (slots l)[i := Returned]\<rparr>"
    by (auto split: if_splits)
  from filter_update_count [OF i, of fetching Returned] q l' show ?thesis
    by (simp add: inFlight_def)
next
  case (FetchThrew i)
  with step have i: "i < length (slots l)"
    and q: "slots l ! i = FetchingYes \<or> slots l ! i = FetchingNo"
    and l': "l' = l\<lparr>permits := permits l + 1, slots := (slots l)[i := Thrown]\<rparr>"
    by (auto split: if_splits)
  from filter_update_count [OF i, of fetching Thrown] q l' show ?thesis
    by (auto simp add: inFlight_def)
qed

lemma runLimiter_keeps_permits:
  "runLimiter acts l = Some l' \<Longrightarrow> permits l' + inFlight l' = permits l + inFlight l"
proof (induction acts arbitrary: l)
  case Nil
  then show ?case by simp
next
  case (Cons a acts)
  then obtain l1 where 1: "limiterStep a l = Some l1" and 2: "runLimiter acts l1 = Some l'"
    by (auto split: option.splits)
  from Cons.IH [OF 2] limiterStep_keeps_permits [OF 1] show ?case by simp
qed

lemma settled_not_fetching: "list_all settled xs \<Longrightarrow> filter fetching xs = []"
proof (induction xs)
  case Nil
  then show ?case by simp
next
  case (Cons x xs)
  then show ?case by (cases x) simp_all
qed

text \<open>Claim C9. Over the limiter of the specification with the engine's six permits:
  after the scan has handed one closure per market to the limiter, whatever the order
  of the steps that follow, at most six fetches are in flight, the free permits and the
  fetches in flight add up to six, and once every closure has finished all six permits
  are free. Every step keeps that sum; a closure that returns and a closure whose fetch
  throws each give their permit back; and without a free permit nothing is granted.\<close>

theorem limiter_bounds_orderbook_fetches:
  "(runLimiter (scanSubmits markets @ schedule) (newLimiter orderbookLimiterPermits) = Some l \<longrightarrow>
      inFlight l \<le> 6 \<and> permits l + inFlight l = 6 \<and>
      (list_all settled (slots l) \<longrightarrow> permits l = 6)) \<and>
   (limiterStep a l = Some l' \<longrightarrow> permits l' + inFlight l' = permits l + inFlight l) \<and>
   (limiterStep (NoReturned i) l = Some l' \<longrightarrow> permits l' = permits l + 1) \<and>
   (limiterStep (FetchThrew i) l = Some l' \<longrightarrow> permits l' = permits l + 1) \<and>
   (permits l = 0 \<longrightarrow> limiterStep (Grant i) l = None)"
proof (intro conjI impI)
  assume run: "runLimiter (scanSubmits markets @ schedule) (newLimiter orderbookLimiterPermits) = Some l"
  from runLimiter_keeps_permits [OF run]
  show sum: "permits l + inFlight l = 6"
    by (simp add: newLimiter_def orderbookLimiterPermits_def inFlight_def)
  then show "inFlight l \<le> 6" by simp
  show "permits l = 6" if "list_all settled (slots l)"
    using that sum by (simp add: inFlight_def settled_not_fetching)
next
  assume "limiterStep a l = Some l'"
  then show "permits l' + inFlight l' = permits l + inFlight l"
    by (rule limiterStep_keeps_permits)
next
  assume "limiterStep (NoReturned i) l = Some l'"
  then show "permits l' = permits l + 1" by (auto split: if_splits)
next
  assume "limiterStep (FetchThrew i) l = Some l'"
  then show "permits l' = permits l + 1" by (auto split: if_splits)
next
  assume "permits l = 0"
  then show "limiterStep (Grant i) l = None" by simp
qed

text \<open>Seven markets: six closures are granted a permit, the seventh is not until one
  of the six has thrown or returned.\<close>

theorem limiter_bounds_orderbook_fetches_witness:
  "runLimiter (scanSubmits sevenMarkets @ [Grant 0, Grant 1, Grant 2, Grant 3, Grant 4, Grant 5])
      (newLimiter orderbookLimiterPermits) =
     Some \<lparr>permits = 0,
           slots = [FetchingYes, FetchingYes, FetchingYes, FetchingYes, FetchingYes, FetchingYes,
                    Queued]\<rparr> \<and>
   runLimiter
      (scanSubmits sevenMarkets @ [Grant 0, Grant 1, Grant 2, Grant 3, Grant 4, Grant 5, Grant 6])
      (newLimiter orderbookLimiterPermits) = None \<and>
   limiterStep (FetchThrew 0)
      \<lparr>permits = 0,
        slots = [FetchingYes, FetchingYes, FetchingYes, FetchingYes, FetchingYes, FetchingYes,
                 Queued]\<rparr> =
     Some \<lparr>permits = 1,
           slots = [Thrown, FetchingYes, FetchingYes, FetchingYes, FetchingYes, FetchingYes,
                    Queued]\<rparr> \<and>
   limiterStep (NoReturned 1)
      \<lparr>permits = 0,
        slots = [FetchingYes, FetchingNo, FetchingYes, FetchingYes, FetchingYes, FetchingYes,
                 Queued]\<rparr> =
     Some \<lparr>permits = 1,
           slots = [FetchingYes, Returned, FetchingYes, FetchingYes, FetchingYes, FetchingYes,
                    Queued]\<rparr> \<and>
   runLimiter
      (scanSubmits sevenMarkets @
         [Grant 0, Grant 1, Grant 2, Grant 3, Grant 4, Grant 5, FetchThrew 0, Grant 6,
          YesReturned 1, NoReturned 1])
      (newLimiter orderbookLimiterPermits) =
     Some \<lparr>permits = 1,
           slots = [Thrown, Returned, FetchingYes, FetchingYes, FetchingYes, FetchingYes,
                    FetchingYes]\<rparr>"
  using limiter_bounds_orderbook_fetches
    [where markets = sevenMarkets
       and schedule = "[Grant 0, Grant 1, Grant 2, Grant 3, Grant 4, Grant 5]"
       and l = "\<lparr>permits = 0,
           slots = [FetchingYes, FetchingYes, FetchingYes, FetchingYes, FetchingYes, FetchingYes,
                    Queued]\<rparr>"
       and a = "FetchThrew 0" and i = 0
       and l' = "\<lparr>permits = 1,
           slots = [Thrown, FetchingYes, FetchingYes, FetchingYes, FetchingYes, FetchingYes,
                    Queued]\<rparr>"]
    limiter_bounds_orderbook_fetches
    [where markets = sevenMarkets
       and schedule = "[Grant 0, Grant 1, Grant 2, Grant 3, Grant 4, Grant 5, YesReturned 1]"
       and l = "\<lparr>permits = 0,
           slots = [FetchingYes, FetchingNo, FetchingYes, FetchingYes, FetchingYes, FetchingYes,
                    Queued]\<rparr>"
       and a = "NoReturned 1" and i = 1
       and l' = "\<lparr>permits = 1,
           slots = [FetchingYes, Returned, FetchingYes, FetchingYes, FetchingYes, FetchingYes,
                    Queued]\<rparr>"]
  by (simp add: scanSubmits_def sevenMarkets_def newLimiter_def orderbookLimiterPermits_def
      numeral_eq_Suc)

end
